theory Spec2Isabelle
  imports Complex_Main
begin

section \<open>Python errors\<close>

text \<open>
  Every exception the modelled functions can raise is a value of this type. The two
  \<open>ValueError\<close>s that the repository raises itself are kept apart from the ones numpy
  raises, so that a theorem can say which \<^verbatim>\<open>raise\<close> statement was reached.
\<close>

datatype py_error =
    KeyError
  | IndexError
  | TypeError
  | ZeroDivisionError
  | FileNotFoundError
  | ValueError              \<comment> \<open>raised by numpy, torch or the standard library\<close>
  | RuntimeError            \<comment> \<open>torch: shapes that do not broadcast, reduction of an empty tensor\<close>
  | AttributeError
  | OverflowError
  | LossNameError           \<comment> \<open>\<^verbatim>\<open>ValueError("loss name do not set properly, ...")\<close>\<close>
  | DownSampleNodeError     \<comment> \<open>\<^verbatim>\<open>ValueError("num_down_sample_node error, ...")\<close>\<close>
  | GradProblem             \<comment> \<open>\<^verbatim>\<open>Exception("value error, has grad problem")\<close>\<close>

section \<open>\<^verbatim>\<open>pkg/utils/io.py\<close>: \<^verbatim>\<open>get_repo_path\<close>\<close>

text \<open>
  \<^verbatim>\<open>os.path.dirname\<close> and \<^verbatim>\<open>os.path.join\<close> of \<^verbatim>\<open>posixpath\<close>:
  \<^verbatim>\<open>
  def dirname(p):
      i = p.rfind('/') + 1
      head = p[:i]
      if head and head != '/' * len(head):
          head = head.rstrip('/')
      return head
  \<close>
\<close>

fun rfind :: "string \<Rightarrow> char \<Rightarrow> int" where
  "rfind [] c = - 1"
| "rfind (x # xs) c =
     (let r = rfind xs c in if 0 \<le> r then r + 1 else if x = c then 0 else - 1)"

definition rstrip :: "string \<Rightarrow> char \<Rightarrow> string" where
  "rstrip s c = rev (dropWhile (\<lambda>x. x = c) (rev s))"

definition dirname :: "string \<Rightarrow> string" where
  "dirname p =
     (let i = rfind p (CHR ''/'') + 1;
          head = take (nat i) p
      in if head \<noteq> [] \<and> head \<noteq> replicate (length head) (CHR ''/'')
         then rstrip head (CHR ''/'') else head)"

definition startswith :: "string \<Rightarrow> string \<Rightarrow> bool" where
  "startswith s pre = (take (length pre) s = pre)"

definition endswith :: "string \<Rightarrow> string \<Rightarrow> bool" where
  "endswith s suf = (length suf \<le> length s \<and> drop (length s - length suf) s = suf)"

definition path_join :: "string \<Rightarrow> string \<Rightarrow> string" where
  "path_join a b =
     (if startswith b ''/'' then b
      else if a = [] \<or> endswith a ''/'' then a @ b
      else a @ ''/'' @ b)"

text \<open>
  The loop of \<^verbatim>\<open>get_repo_path\<close>. The file system enters through \<open>exists\<close>
  (\<^verbatim>\<open>os.path.exists\<close>). The loop has no bound in the source, so it is a partial
  function: \<open>None\<close> is "does not return".
  \<^verbatim>\<open>
  script_directory = os.path.dirname(path)
  while script_directory and not os.path.exists(os.path.join(script_directory, ".git")):
      script_directory = os.path.dirname(script_directory)
  return script_directory
  \<close>
\<close>

partial_function (option) repo_loop :: "(string \<Rightarrow> bool) \<Rightarrow> string \<Rightarrow> string option" where
  "repo_loop exists script_directory =
     (if script_directory \<noteq> [] \<and> \<not> exists (path_join script_directory ''.git'')
      then repo_loop exists (dirname script_directory)
      else Some script_directory)"

definition get_repo_path :: "(string \<Rightarrow> bool) \<Rightarrow> string \<Rightarrow> string option" where
  "get_repo_path exists path = repo_loop exists (dirname path)"

section \<open>\<^verbatim>\<open>pkg/train/trainer/base_trainer.py\<close>: \<^verbatim>\<open>create_loss\<close>\<close>

datatype loss_fn = MSELoss | EuclideanDistanceMSE

record trainer =
  loss :: "loss_fn option"

text \<open>
  \<^verbatim>\<open>
  loss_param = self.task_trainer["loss_param"]
  if loss_param["name"] == "mse":
      self.loss = nn.MSELoss()
  if loss_param["name"] == "euclidean_distance_mse":
      self.loss = EuclideanDistanceMSE()
  else:
      raise ValueError(...)
  \<close>
  The two \<^verbatim>\<open>if\<close>s are separate statements; the \<^verbatim>\<open>else\<close> belongs to the second.
  The result is the exception raised, if any, and the trainer as the call leaves it.
\<close>

definition create_loss :: "(string \<rightharpoonup> string) \<Rightarrow> trainer \<Rightarrow> py_error option \<times> trainer" where
  "create_loss loss_param self =
     (case loss_param ''name'' of
        None \<Rightarrow> (Some KeyError, self)
      | Some name \<Rightarrow>
          (let self1 = (if name = ''mse'' then self\<lparr>loss := Some MSELoss\<rparr> else self)
           in if name = ''euclidean_distance_mse''
              then (None, self1\<lparr>loss := Some EuclideanDistanceMSE\<rparr>)
              else (Some LossNameError, self1)))"

section \<open>\<^verbatim>\<open>pkg/train/module/data_transform.py\<close>: \<^verbatim>\<open>MaxMinNorm\<close> and \<^verbatim>\<open>NormalNorm\<close>\<close>

text \<open>
  Floating-point numbers. An entry of a tensor is a finite number (\<open>Fin 0\<close> is the
  positive zero), the negative zero \<open>NZ\<close>, an infinity or \<^verbatim>\<open>nan\<close>. The arithmetic is
  that of IEEE 754 in round-to-nearest, which torch uses, for whichever floating-point
  dtype the tensors of a call have (\<^verbatim>\<open>torch.float32\<close> after \<^verbatim>\<open>ToTensor\<close>). The dtype
  is a parameter: \<open>rnd\<close> rounds a real number to the precision of the dtype, as if the
  exponent had no upper bound, and \<open>fmax\<close> is its largest finite number; a result that
  rounds beyond \<open>fmax\<close> is an infinity, and a nonzero number that rounds to zero keeps
  its sign.
\<close>

datatype fl = Fin real | NZ | PInf | NInf | NaN

record format =
  rnd :: "real \<Rightarrow> real"
  fmax :: real

text \<open>What the theorems below need of a rounding: it is monotone and keeps \<open>0\<close> and \<open>1\<close>.\<close>

definition valid_format :: "format \<Rightarrow> bool" where
  "valid_format F = (mono (rnd F) \<and> rnd F 0 = 0 \<and> rnd F 1 = 1 \<and> 1 \<le> fmax F)"

fun fval :: "fl \<Rightarrow> real" where
  "fval (Fin x) = x"
| "fval NZ = 0"
| "fval PInf = 0"
| "fval NInf = 0"
| "fval NaN = 0"

fun fneg :: "fl \<Rightarrow> bool" where
  "fneg (Fin x) = (x < 0)"
| "fneg NZ = True"
| "fneg PInf = False"
| "fneg NInf = True"
| "fneg NaN = False"

definition is_inf :: "fl \<Rightarrow> bool" where
  "is_inf a = (a = PInf \<or> a = NInf)"

definition zero_of :: "bool \<Rightarrow> fl" where
  "zero_of negative = (if negative then NZ else Fin 0)"

definition inf_of :: "bool \<Rightarrow> fl" where
  "inf_of negative = (if negative then NInf else PInf)"

definition fl_of_real :: "format \<Rightarrow> real \<Rightarrow> fl" where
  "fl_of_real F x =
     (let y = rnd F x
      in if fmax F < y then PInf
         else if y < - fmax F then NInf
         else if y = 0 \<and> x < 0 then NZ
         else Fin y)"

text \<open>
  \<open>a - b\<close>: \<^verbatim>\<open>nan\<close> from a \<^verbatim>\<open>nan\<close> and from the difference of equal infinities; an exact
  zero difference is the positive zero, except \<open>-0 - +0 = -0\<close>.
\<close>

definition fsub :: "format \<Rightarrow> fl \<Rightarrow> fl \<Rightarrow> fl" where
  "fsub F a b =
     (if a = NaN \<or> b = NaN then NaN
      else if a = PInf then (if b = PInf then NaN else PInf)
      else if a = NInf then (if b = NInf then NaN else NInf)
      else if b = PInf then NInf
      else if b = NInf then PInf
      else if a = NZ \<and> b = Fin 0 then NZ
      else if fval a - fval b = 0 then Fin 0
      else fl_of_real F (fval a - fval b))"

text \<open>
  \<open>a / b\<close>: \<^verbatim>\<open>nan\<close> from a \<^verbatim>\<open>nan\<close>, from \<open>inf / inf\<close> and from \<open>0 / 0\<close>; an infinity from a
  division by zero; the sign of a zero or an infinity is the product of the signs.
\<close>

definition fdiv :: "format \<Rightarrow> fl \<Rightarrow> fl \<Rightarrow> fl" where
  "fdiv F a b =
     (if a = NaN \<or> b = NaN then NaN
      else if is_inf a then (if is_inf b then NaN else inf_of (fneg a \<noteq> fneg b))
      else if is_inf b then zero_of (fneg a \<noteq> fneg b)
      else if fval b = 0 then (if fval a = 0 then NaN else inf_of (fneg a \<noteq> fneg b))
      else if fval a = 0 then zero_of (fneg a \<noteq> fneg b)
      else fl_of_real F (fval a / fval b))"

text \<open>\<open>a <= b\<close>: false when either is \<^verbatim>\<open>nan\<close>; the two zeros are equal.\<close>

definition fle :: "fl \<Rightarrow> fl \<Rightarrow> bool" where
  "fle a b =
     (if a = NaN \<or> b = NaN then False
      else if a = NInf \<or> b = PInf then True
      else if a = PInf \<or> b = NInf then False
      else fval a \<le> fval b)"

text \<open>
  One step of torch's maximum and minimum reductions: the running value is replaced
  when the next one is not \<open><=\<close> (not \<open>>=\<close>) it, so a \<^verbatim>\<open>nan\<close> replaces it and then stays,
  and of equal values (the two zeros) the first stays.
\<close>

definition max_step :: "fl \<Rightarrow> fl \<Rightarrow> fl" where
  "max_step running v = (if running = NaN then running else if \<not> fle v running then v else running)"

definition min_step :: "fl \<Rightarrow> fl \<Rightarrow> fl" where
  "min_step running v = (if running = NaN then running else if \<not> fle running v then v else running)"

text \<open>
  Tensors. A feature is a 2-D tensor, the list of its rows (dimension 0 runs over the
  rows, so "along dimension 0" is "down each column"); torch tensors are rectangular,
  which \<open>rect\<close> states. A statistic is a 0-D or a 1-D tensor.
\<close>

type_synonym tensor = "fl list list"

datatype stat = Scalar fl | Vector "fl list"

definition rect :: "nat \<Rightarrow> tensor \<Rightarrow> bool" where
  "rect m t = list_all (\<lambda>r. length r = m) t"

text \<open>A Python dictionary in insertion order.\<close>

type_synonym 'v pydict = "(string \<times> 'v) list"

text \<open>Broadcasting of an elementwise operation, as torch does it on these ranks.\<close>

definition bc_vec :: "(fl \<Rightarrow> fl \<Rightarrow> fl) \<Rightarrow> fl list \<Rightarrow> fl list \<Rightarrow> py_error + fl list" where
  "bc_vec f u v =
     (if length u = length v then Inr (map2 f u v)
      else if length v = 1 then Inr (map (\<lambda>x. f x (hd v)) u)
      else if length u = 1 then Inr (map (f (hd u)) v)
      else Inl RuntimeError)"

fun bc_stat :: "(fl \<Rightarrow> fl \<Rightarrow> fl) \<Rightarrow> stat \<Rightarrow> stat \<Rightarrow> py_error + stat" where
  "bc_stat f (Scalar a) (Scalar b) = Inr (Scalar (f a b))"
| "bc_stat f (Scalar a) (Vector v) = Inr (Vector (map (f a) v))"
| "bc_stat f (Vector u) (Scalar b) = Inr (Vector (map (\<lambda>x. f x b) u))"
| "bc_stat f (Vector u) (Vector v) =
     (case bc_vec f u v of Inl e \<Rightarrow> Inl e | Inr w \<Rightarrow> Inr (Vector w))"

fun sequence_err :: "(py_error + 'a) list \<Rightarrow> py_error + 'a list" where
  "sequence_err [] = Inr []"
| "sequence_err (x # xs) =
     (case x of
        Inl e \<Rightarrow> Inl e
      | Inr a \<Rightarrow> (case sequence_err xs of Inl e \<Rightarrow> Inl e | Inr as \<Rightarrow> Inr (a # as)))"

fun bc_tensor :: "(fl \<Rightarrow> fl \<Rightarrow> fl) \<Rightarrow> tensor \<Rightarrow> stat \<Rightarrow> py_error + tensor" where
  "bc_tensor f t (Scalar b) = Inr (map (map (\<lambda>x. f x b)) t)"
| "bc_tensor f t (Vector v) = sequence_err (map (\<lambda>r. bc_vec f r v) t)"

text \<open>
  \<^verbatim>\<open>torch.max(array, 0).values\<close> and \<^verbatim>\<open>torch.min(array, 0).values\<close>: the reduction
  down the columns, from the first row on; torch refuses to reduce a dimension of size
  zero with an \<^verbatim>\<open>IndexError\<close>.
  \<^verbatim>\<open>torch.max(t)\<close> and \<^verbatim>\<open>torch.min(t)\<close>: the reduction to one number; torch refuses an
  empty tensor with a \<^verbatim>\<open>RuntimeError\<close>.
\<close>

definition reduce_dim0 :: "(fl \<Rightarrow> fl \<Rightarrow> fl) \<Rightarrow> tensor \<Rightarrow> py_error + stat" where
  "reduce_dim0 f t =
     (case t of
        [] \<Rightarrow> Inl IndexError
      | r # rs \<Rightarrow> Inr (Vector (fold (\<lambda>row running. map2 f running row) rs r)))"

fun reduce_all :: "(fl \<Rightarrow> fl \<Rightarrow> fl) \<Rightarrow> stat \<Rightarrow> py_error + stat" where
  "reduce_all f (Scalar a) = Inr (Scalar a)"
| "reduce_all f (Vector []) = Inl RuntimeError"
| "reduce_all f (Vector (x # xs)) = Inr (Scalar (fold (\<lambda>y running. f running y) xs x))"

text \<open>
  \<^verbatim>\<open>
  def _calculate_max_min(array):
      return torch.max(array, 0).values, torch.min(array, 0).values
  def _normal_max_min_transform(array, max_norm_val, min_norm_val):
      return (array - min_norm_val) / (max_norm_val - min_norm_val)
  def _normal_transform(array, mean_val, std_val):
      return (array - mean_val) / std_val
  \<close>
\<close>

definition calculate_max_min :: "tensor \<Rightarrow> py_error + (stat \<times> stat)" where
  "calculate_max_min array =
     (case reduce_dim0 max_step array of
        Inl e \<Rightarrow> Inl e
      | Inr mx \<Rightarrow> (case reduce_dim0 min_step array of Inl e \<Rightarrow> Inl e | Inr mn \<Rightarrow> Inr (mx, mn)))"

definition normal_max_min_transform :: "format \<Rightarrow> tensor \<Rightarrow> stat \<Rightarrow> stat \<Rightarrow> py_error + tensor" where
  "normal_max_min_transform F array max_norm_val min_norm_val =
     (case bc_tensor (fsub F) array min_norm_val of
        Inl e \<Rightarrow> Inl e
      | Inr num \<Rightarrow>
          (case bc_stat (fsub F) max_norm_val min_norm_val of
             Inl e \<Rightarrow> Inl e
           | Inr den \<Rightarrow> bc_tensor (fdiv F) num den))"

definition normal_transform :: "format \<Rightarrow> tensor \<Rightarrow> stat \<Rightarrow> stat \<Rightarrow> py_error + tensor" where
  "normal_transform F array mean_val std_val =
     (case bc_tensor (fsub F) array mean_val of
        Inl e \<Rightarrow> Inl e
      | Inr num \<Rightarrow> bc_tensor (fdiv F) num std_val)"

text \<open>
  The transforms. \<open>feature_config\<close> is the dictionary of loaded statistics: for each
  configured name, the statistics by their own names. \<^verbatim>\<open>MaxMinNorm.__init__\<close> stores
  the constants \<^verbatim>\<open>MAX_VAL\<close> and \<^verbatim>\<open>MIN_VAL\<close> of \<^verbatim>\<open>common.constant\<close> in two fields;
  \<^verbatim>\<open>NormalNorm\<close> reads \<^verbatim>\<open>MEAN_VAL\<close> and \<^verbatim>\<open>STD_VAL\<close> directly, so they are parameters
  of its model.
\<close>

record norm =
  feature_config :: "string \<rightharpoonup> (string \<rightharpoonup> stat)"
  global_scaling :: bool
  coarse_dim :: bool

record maxmin_norm = norm +
  max_val_name :: string
  min_val_name :: string

definition lookup :: "('k \<rightharpoonup> 'v) \<Rightarrow> 'k \<Rightarrow> py_error + 'v" where
  "lookup d k = (case d k of None \<Rightarrow> Inl KeyError | Some v \<Rightarrow> Inr v)"

text \<open>
  The body of either loop of \<^verbatim>\<open>MaxMinNorm.__call__\<close>, for one item of the dictionary:
  \<^verbatim>\<open>
  if name in self.feature_config:
      if self.global_scaling:
          max_val, min_val = (self.feature_config[name][self.max_val_name],
                              self.feature_config[name][self.min_val_name])
      else:
          max_val, min_val = self._calculate_max_min(fea)
      if self.coarse_dim:
          max_val, min_val = torch.max(max_val), torch.min(min_val)
      context[name] = self._normal_max_min_transform(fea, max_val, min_val)
  \<close>
\<close>

definition maxmin_bounds :: "'a maxmin_norm_scheme \<Rightarrow> string \<Rightarrow> tensor \<Rightarrow> py_error + (stat \<times> stat)" where
  "maxmin_bounds self name fea =
     (case (if global_scaling self
            then (case lookup (feature_config self) name of
                    Inl e \<Rightarrow> Inl e
                  | Inr st \<Rightarrow>
                      (case lookup st (max_val_name self) of
                         Inl e \<Rightarrow> Inl e
                       | Inr mx \<Rightarrow>
                           (case lookup st (min_val_name self) of
                              Inl e \<Rightarrow> Inl e
                            | Inr mn \<Rightarrow> Inr (mx, mn))))
            else calculate_max_min fea) of
        Inl e \<Rightarrow> Inl e
      | Inr (max_val, min_val) \<Rightarrow>
          if coarse_dim self
          then (case reduce_all max_step max_val of
                  Inl e \<Rightarrow> Inl e
                | Inr mx \<Rightarrow>
                    (case reduce_all min_step min_val of Inl e \<Rightarrow> Inl e | Inr mn \<Rightarrow> Inr (mx, mn)))
          else Inr (max_val, min_val))"

definition maxmin_item ::
  "format \<Rightarrow> 'a maxmin_norm_scheme \<Rightarrow> string \<Rightarrow> tensor \<Rightarrow> py_error + tensor" where
  "maxmin_item F self name fea =
     (if name \<in> dom (feature_config self)
      then (case maxmin_bounds self name fea of
              Inl e \<Rightarrow> Inl e
            | Inr (max_val, min_val) \<Rightarrow> normal_max_min_transform F fea max_val min_val)
      else Inr fea)"

text \<open>
  \<^verbatim>\<open>for name, fea in d.items(): ... d[name] = ...\<close>: the loop assigns to keys that are
  already there, so the dictionary keeps its keys and their order; the first exception
  ends it.
\<close>

fun update_items :: "(string \<Rightarrow> tensor \<Rightarrow> py_error + tensor) \<Rightarrow> tensor pydict \<Rightarrow> py_error + tensor pydict" where
  "update_items f [] = Inr []"
| "update_items f ((name, fea) # rest) =
     (case f name fea of
        Inl e \<Rightarrow> Inl e
      | Inr v \<Rightarrow>
          (case update_items f rest of Inl e \<Rightarrow> Inl e | Inr rest' \<Rightarrow> Inr ((name, v) # rest')))"

definition MaxMinNorm_call ::
  "format \<Rightarrow> 'a maxmin_norm_scheme \<Rightarrow> tensor pydict \<times> tensor pydict
     \<Rightarrow> py_error + (tensor pydict \<times> tensor pydict)" where
  "MaxMinNorm_call F self sample =
     (case sample of (context, feature) \<Rightarrow>
        (case update_items (maxmin_item F self) context of
           Inl e \<Rightarrow> Inl e
         | Inr context' \<Rightarrow>
             (case update_items (maxmin_item F self) feature of
                Inl e \<Rightarrow> Inl e
              | Inr feature' \<Rightarrow> Inr (context', feature'))))"

text \<open>
  \<^verbatim>\<open>NormalNorm.__call__\<close>, one item:
  \<^verbatim>\<open>
  if name in self.feature_config:
      mean_val = self.feature_config[name][MEAN_VAL]
      std_val = self.feature_config[name][STD_VAL]
      context[name] = self._normal_transform(fea, mean_val, std_val)
  \<close>
\<close>

definition normal_item ::
  "format \<Rightarrow> string \<Rightarrow> string \<Rightarrow> 'a norm_scheme \<Rightarrow> string \<Rightarrow> tensor \<Rightarrow> py_error + tensor" where
  "normal_item F MEAN_VAL STD_VAL self name fea =
     (if name \<in> dom (feature_config self)
      then (case lookup (feature_config self) name of
              Inl e \<Rightarrow> Inl e
            | Inr st \<Rightarrow>
                (case lookup st MEAN_VAL of
                   Inl e \<Rightarrow> Inl e
                 | Inr mean_val \<Rightarrow>
                     (case lookup st STD_VAL of
                        Inl e \<Rightarrow> Inl e
                      | Inr std_val \<Rightarrow> normal_transform F fea mean_val std_val)))
      else Inr fea)"

definition NormalNorm_call ::
  "format \<Rightarrow> string \<Rightarrow> string \<Rightarrow> 'a norm_scheme \<Rightarrow> tensor pydict \<times> tensor pydict
     \<Rightarrow> py_error + (tensor pydict \<times> tensor pydict)" where
  "NormalNorm_call F MEAN_VAL STD_VAL self sample =
     (case sample of (context, feature) \<Rightarrow>
        (case update_items (normal_item F MEAN_VAL STD_VAL self) context of
           Inl e \<Rightarrow> Inl e
         | Inr context' \<Rightarrow>
             (case update_items (normal_item F MEAN_VAL STD_VAL self) feature of
                Inl e \<Rightarrow> Inl e
              | Inr feature' \<Rightarrow> Inr (context', feature'))))"

text \<open>
  What "only the configured entries are modified" says of a dictionary before and after:
  the same keys in the same order, and the same value at every key outside \<open>S\<close>.
\<close>

definition unchanged_outside :: "string set \<Rightarrow> tensor pydict \<Rightarrow> tensor pydict \<Rightarrow> bool" where
  "unchanged_outside S d d' =
     (map fst d' = map fst d \<and> (\<forall>i<length d. fst (d ! i) \<notin> S \<longrightarrow> d' ! i = d ! i))"

text \<open>
  A dtype with the range of \<^verbatim>\<open>torch.float32\<close> and no rounding: on numbers whose sums,
  differences and quotients \<^verbatim>\<open>float32\<close> represents exactly, as in the examples below, it
  computes what \<^verbatim>\<open>float32\<close> computes.
\<close>

definition exact32 :: format where
  "exact32 = \<lparr>rnd = (\<lambda>x. x), fmax = 2 ^ 128 - 2 ^ 104\<rparr>"

text \<open>A small sample and statistics, on which both transforms run through.\<close>

definition stats0 :: "string \<rightharpoonup> (string \<rightharpoonup> stat)" where
  "stats0 = [''a'' \<mapsto> [''max_val'' \<mapsto> Vector [Fin 3], ''min_val'' \<mapsto> Vector [Fin 1],
                        ''mean_val'' \<mapsto> Vector [Fin 1], ''std_val'' \<mapsto> Vector [Fin 2]]]"

definition maxmin0 :: maxmin_norm where
  "maxmin0 = \<lparr>feature_config = stats0, global_scaling = True, coarse_dim = False,
             max_val_name = ''max_val'', min_val_name = ''min_val''\<rparr>"

definition normal0 :: norm where
  "normal0 = \<lparr>feature_config = stats0, global_scaling = True, coarse_dim = False\<rparr>"

text \<open>
  The claim's words about the normalization. The maximum of a list of numbers is one of
  them that all others are \<open><=\<close>, and \<^verbatim>\<open>nan\<close> if one of them is \<^verbatim>\<open>nan\<close>; likewise the
  minimum.
\<close>

definition is_maximum :: "fl list \<Rightarrow> fl \<Rightarrow> bool" where
  "is_maximum xs v = (v \<in> set xs \<and> (if NaN \<in> set xs then v = NaN else \<forall>x \<in> set xs. fle x v))"

definition is_minimum :: "fl list \<Rightarrow> fl \<Rightarrow> bool" where
  "is_minimum xs v = (v \<in> set xs \<and> (if NaN \<in> set xs then v = NaN else \<forall>x \<in> set xs. fle v x))"

text \<open>
  The columns of a tensor, the maximum and the minimum that torch finds in each, and
  the maximum of the column maxima and the minimum of the column minima, which
  \<^verbatim>\<open>coarse_dim\<close> takes.
\<close>

definition column :: "tensor \<Rightarrow> nat \<Rightarrow> fl list" where
  "column t j = map (\<lambda>r. r ! j) t"

definition fl_maximum :: "fl list \<Rightarrow> fl" where
  "fl_maximum xs = (case xs of [] \<Rightarrow> NaN | x # rest \<Rightarrow> fold (\<lambda>v running. max_step running v) rest x)"

definition fl_minimum :: "fl list \<Rightarrow> fl" where
  "fl_minimum xs = (case xs of [] \<Rightarrow> NaN | x # rest \<Rightarrow> fold (\<lambda>v running. min_step running v) rest x)"

definition col_max :: "tensor \<Rightarrow> nat \<Rightarrow> fl" where
  "col_max t j = fl_maximum (column t j)"

definition col_min :: "tensor \<Rightarrow> nat \<Rightarrow> fl" where
  "col_min t j = fl_minimum (column t j)"

definition all_max :: "nat \<Rightarrow> tensor \<Rightarrow> fl" where
  "all_max m t = fl_maximum (map (col_max t) [0..<m])"

definition all_min :: "nat \<Rightarrow> tensor \<Rightarrow> fl" where
  "all_min m t = fl_minimum (map (col_min t) [0..<m])"

text \<open>
  \<open>(x - min_val) / (max_val - min_val)\<close> for one entry, and for a tensor of \<open>m\<close> columns
  with statistics that are one number or one number for each column.
\<close>

definition min_max_scaled :: "format \<Rightarrow> fl \<Rightarrow> fl \<Rightarrow> fl \<Rightarrow> fl" where
  "min_max_scaled F x max_val min_val = fdiv F (fsub F x min_val) (fsub F max_val min_val)"

fun stat_at :: "stat \<Rightarrow> nat \<Rightarrow> fl" where
  "stat_at (Scalar a) j = a"
| "stat_at (Vector v) j = v ! j"

fun stat_fits :: "nat \<Rightarrow> stat \<Rightarrow> bool" where
  "stat_fits m (Scalar a) = True"
| "stat_fits m (Vector v) = (length v = m)"

definition scaled :: "format \<Rightarrow> nat \<Rightarrow> tensor \<Rightarrow> stat \<Rightarrow> stat \<Rightarrow> tensor" where
  "scaled F m t max_val min_val =
     map (\<lambda>r. map (\<lambda>j. min_max_scaled F (r ! j) (stat_at max_val j) (stat_at min_val j)) [0..<m]) t"

text \<open>"Lies in \<open>[0, 1]\<close>": a finite number of that interval, or the negative zero.\<close>

fun unit_fl :: "fl \<Rightarrow> bool" where
  "unit_fl (Fin q) = (0 \<le> q \<and> q \<le> 1)"
| "unit_fl NZ = True"
| "unit_fl PInf = False"
| "unit_fl NInf = False"
| "unit_fl NaN = False"

definition unit_entries :: "nat \<Rightarrow> tensor \<Rightarrow> bool" where
  "unit_entries m t = (\<forall>r<length t. \<forall>j<m. unit_fl (t ! r ! j))"

fun pos_finite :: "fl \<Rightarrow> bool" where
  "pos_finite (Fin q) = (0 < q)"
| "pos_finite NZ = False"
| "pos_finite PInf = False"
| "pos_finite NInf = False"
| "pos_finite NaN = False"

text \<open>
  Two transforms without global scaling, a tensor with two unlike columns, and a column
  whose extent exceeds the range of \<^verbatim>\<open>float32\<close>.
\<close>

definition local0 :: maxmin_norm where
  "local0 = \<lparr>feature_config = [''a'' \<mapsto> Map.empty], global_scaling = False, coarse_dim = False,
             max_val_name = ''max_val'', min_val_name = ''min_val''\<rparr>"

definition coarse0 :: maxmin_norm where
  "coarse0 = local0\<lparr>coarse_dim := True\<rparr>"

definition fea0 :: tensor where
  "fea0 = [[Fin 0, Fin 8], [Fin 1, Fin 16]]"

definition fea1 :: tensor where
  "fea1 = [[Fin (- (2 ^ 127))], [Fin 0], [Fin (2 ^ 127)]]"

section \<open>\<^verbatim>\<open>pkg/train/trainer/base_trainer.py\<close>: \<^verbatim>\<open>train_step\<close>\<close>

text \<open>
  What one pass of the loop body obtains from the network, the loss, autograd, the
  optimizer and the clock, none of which is code of this repository's \<^verbatim>\<open>train_step\<close>:
  the value of \<^verbatim>\<open>self.compute_loss(outputs, train_labels)\<close> (a tensor, a
  dictionary of tensors, or anything else), whether some parameter has a gradient norm
  that is \<^verbatim>\<open>nan\<close> or \<^verbatim>\<open>inf\<close>, the model with its optimizer and scheduler after
  their \<^verbatim>\<open>step()\<close>, the four time differences and the learning rate.
\<close>

datatype loss_value = LTensor real | LDict "real pydict" | LOther

record 'm batch_result =
  br_loss :: loss_value
  br_grad_problem :: bool
  br_model :: 'm
  br_time_2_device :: real
  br_time_2_fw :: real
  br_time_2_bw :: real
  br_time_per_step :: real
  br_lr :: real

type_synonym metrics = "string \<rightharpoonup> real"

text \<open>
  \<^verbatim>\<open>metrics[k] = metrics[k] + v if k in metrics else v\<close>
\<close>

definition add_metric :: "string \<times> real \<Rightarrow> metrics \<Rightarrow> metrics" where
  "add_metric kv metrics =
     (case kv of (k, v) \<Rightarrow>
        metrics(k \<mapsto> (case metrics k of Some a \<Rightarrow> a + v | None \<Rightarrow> v)))"

text \<open>
  \<^verbatim>\<open>
  if isinstance(loss, Tensor):
      total_loss = loss
      metrics["train_loss"] = ...
  elif isinstance(loss, Dict):
      total_loss = sum(loss.values())
      for name, loss in loss.items():
          metrics[f"{name}_train_loss"] = ...
  \<close>
  The names and values that the batch adds to the dictionary.
\<close>

fun loss_items :: "loss_value \<Rightarrow> real pydict" where
  "loss_items (LTensor x) = [(''train_loss'', x)]"
| "loss_items (LDict d) = map (\<lambda>(name, l). (name @ ''_train_loss'', l)) d"
| "loss_items LOther = []"

text \<open>
  \<^verbatim>\<open>total_loss.backward()\<close>: \<^verbatim>\<open>total_loss\<close> is \<^verbatim>\<open>None\<close> when the loss is neither a
  tensor nor a dictionary, and the integer \<open>0\<close> when the dictionary is empty; neither
  has a \<^verbatim>\<open>backward\<close>.
\<close>

fun has_backward :: "loss_value \<Rightarrow> bool" where
  "has_backward (LTensor x) = True"
| "has_backward (LDict d) = (d \<noteq> [])"
| "has_backward LOther = False"

text \<open>
  \<^verbatim>\<open>"loss" in p\<close>: the substring test.
\<close>

fun contains :: "string \<Rightarrow> string \<Rightarrow> bool" where
  "contains sub [] = (sub = [])"
| "contains sub (c # s) = (startswith (c # s) sub \<or> contains sub s)"

text \<open>
  The loop of \<^verbatim>\<open>train_step\<close> over the batches that the data loader yields, from the
  values of \<^verbatim>\<open>batch\<close>, \<^verbatim>\<open>metrics\<close> and the model at the head of the loop:
  \<^verbatim>\<open>
  for _, data in enumerate(data_loader):
      if batch == per_epoch_steps:
          break
      ...
      loss = self.compute_loss(outputs, train_labels)
      ... (the metrics of the loss, as above)
      self.optimizer.zero_grad()
      total_loss.backward()
      for name, param in model.named_parameters():
          if check_grad(name, param):
              raise Exception("value error, has grad problem")
      self.optimizer.step()
      self.scheduler.step()
      metrics.update(**{"time_2_device": ..., "time_2_fw": ..., "time_2_bw": ...,
                        "time_per_step": ..., "lr": self.scheduler.get_last_lr()[0]})
      self.callback.on_train_batch_end(batch, metrics=metrics)
      batch += 1
  \<close>
  The callbacks are taken to read the dictionary they are handed, not to write it.
\<close>

fun train_loop ::
  "('m \<Rightarrow> 'd \<Rightarrow> 'm batch_result) \<Rightarrow> int option \<Rightarrow> nat \<Rightarrow> metrics \<Rightarrow> 'm \<Rightarrow> 'd list
     \<Rightarrow> py_error + (nat \<times> metrics \<times> 'm)" where
  "train_loop run per_epoch_steps batch metrics model [] = Inr (batch, metrics, model)"
| "train_loop run per_epoch_steps batch metrics model (data # rest) =
     (if Some (int batch) = per_epoch_steps then Inr (batch, metrics, model)
      else
        let r = run model data;
            metrics1 = fold add_metric (loss_items (br_loss r)) metrics
        in if \<not> has_backward (br_loss r) then Inl AttributeError
           else if br_grad_problem r then Inl GradProblem
           else
             train_loop run per_epoch_steps (batch + 1)
               (metrics1(''time_2_device'' \<mapsto> br_time_2_device r,
                         ''time_2_fw'' \<mapsto> br_time_2_fw r,
                         ''time_2_bw'' \<mapsto> br_time_2_bw r,
                         ''time_per_step'' \<mapsto> br_time_per_step r,
                         ''lr'' \<mapsto> br_lr r))
               (br_model r) rest)"

text \<open>
  \<^verbatim>\<open>
  batch = 0
  metrics = {}
  (the loop)
  for p in metrics:
      if "loss" in p or "error" in p:
          metrics[p] = metrics[p] / batch
  return metrics
  \<close>
  Besides the dictionary, the model returns the final value of \<^verbatim>\<open>batch\<close>, the number of
  batches processed, and the model as the last optimizer step leaves it.
\<close>

definition train_step ::
  "('m \<Rightarrow> 'd \<Rightarrow> 'm batch_result) \<Rightarrow> int option \<Rightarrow> 'm \<Rightarrow> 'd list
     \<Rightarrow> py_error + (metrics \<times> nat \<times> 'm)" where
  "train_step run per_epoch_steps model data_loader =
     (case train_loop run per_epoch_steps 0 Map.empty model data_loader of
        Inl e \<Rightarrow> Inl e
      | Inr (batch, metrics, model') \<Rightarrow>
          Inr (\<lambda>p. case metrics p of
                      None \<Rightarrow> None
                    | Some v \<Rightarrow>
                        if contains ''loss'' p \<or> contains ''error'' p
                        then Some (v / real batch) else Some v,
               batch, model'))"

text \<open>
  The guard of \<^verbatim>\<open>train\<close>:
  \<^verbatim>\<open>
  if not task_trainer.get("per_epoch_steps", None) and task_trainer.get("infinite", False):
      raise ValueError("when infinite = True, please setup the per_epoch_steps")
  \<close>
\<close>

definition train_guard :: "int option \<Rightarrow> bool \<Rightarrow> py_error option" where
  "train_guard per_epoch_steps infinite_loader =
     (if (per_epoch_steps = None \<or> per_epoch_steps = Some 0) \<and> infinite_loader
      then Some ValueError else None)"

text \<open>
  The claim's words: the results of the batches in the order the loop meets them, and for a
  name the sum of what these batches add under it.
\<close>

fun batch_results :: "('m \<Rightarrow> 'd \<Rightarrow> 'm batch_result) \<Rightarrow> 'm \<Rightarrow> 'd list \<Rightarrow> 'm batch_result list" where
  "batch_results run model [] = []"
| "batch_results run model (data # rest) =
     (let r = run model data in r # batch_results run (br_model r) rest)"

definition values_for :: "string \<Rightarrow> real pydict \<Rightarrow> real list" where
  "values_for k items = map snd (filter (\<lambda>kv. fst kv = k) items)"

definition accumulated :: "string \<Rightarrow> 'm batch_result list \<Rightarrow> real" where
  "accumulated k rs = sum_list (concat (map (\<lambda>r. values_for k (loss_items (br_loss r))) rs))"

text \<open>A dictionary entry after more values are added to it, \<open>None\<close> being "not a key".\<close>

definition entry_plus :: "real option \<Rightarrow> real list \<Rightarrow> real option" where
  "entry_plus a vs = (if vs = [] then a else Some ((case a of None \<Rightarrow> 0 | Some x \<Rightarrow> x) + sum_list vs))"

definition fixed_keys :: "string set" where
  "fixed_keys = {''time_2_device'', ''time_2_fw'', ''time_2_bw'', ''time_per_step'', ''lr''}"

definition processed :: "py_error + (metrics \<times> nat \<times> 'm) \<Rightarrow> nat option" where
  "processed res = (case res of Inl e \<Rightarrow> None | Inr (metrics, batch, model) \<Rightarrow> Some batch)"

text \<open>A training run of two batches with tensor losses \<open>1\<close> and \<open>3\<close>, the model being the count of steps.\<close>

definition run0 :: "nat \<Rightarrow> real \<Rightarrow> nat batch_result" where
  "run0 model data =
     \<lparr>br_loss = LTensor data, br_grad_problem = False, br_model = model + 1,
      br_time_2_device = 0, br_time_2_fw = 0, br_time_2_bw = 0, br_time_per_step = 0,
      br_lr = 1\<rparr>"

section \<open>\<^verbatim>\<open>task/passive_biv/data/datasets_preparation_hdf5.py\<close>: \<^verbatim>\<open>PassiveBiVPreparationDataset\<close>\<close>

subsection \<open>The world of the preparation run\<close>

text \<open>
  The run reads CSV files, draws random numbers and writes HDF5 files. Its model passes
  a state: the random generator, the files read so far (one event for each call of
  \<^verbatim>\<open>np.loadtxt\<close>, named by the place of the call: a table of global features, a case
  file under \<^verbatim>\<open>inputs_data_path\<close>, a case file under \<^verbatim>\<open>outputs_data_path\<close>), and the
  HDF5 files written so far. A computation returns an error or a value, and the state as
  it leaves it: what was read and written before an exception stays read and written.
\<close>

type_synonym ndarray = "real list list"

datatype read_event = Table string | CaseInput string | CaseOutput string

record sample =
  index :: int
  points :: int
  node_coord :: ndarray
  laplace_coord :: ndarray
  fiber_and_sheet :: ndarray
  edges_indices :: "int list list"
  mat_param :: "real list"
  pressure :: "real list"
  shape_coeffs :: "real list"
  displacement :: ndarray
  stress :: ndarray

record 'g world =
  rng :: 'g
  reads :: "read_event list"
  h5_files :: "(nat \<times> sample pydict) list"

type_synonym ('a, 'g) prog = "'g world \<Rightarrow> (py_error + 'a) \<times> 'g world"

definition ret :: "'a \<Rightarrow> ('a, 'g) prog" where
  "ret x = (\<lambda>w. (Inr x, w))"

definition raise :: "py_error \<Rightarrow> ('a, 'g) prog" where
  "raise e = (\<lambda>w. (Inl e, w))"

definition bindE :: "('a, 'g) prog \<Rightarrow> ('a \<Rightarrow> ('b, 'g) prog) \<Rightarrow> ('b, 'g) prog" where
  "bindE m f = (\<lambda>w. case m w of (Inl e, w') \<Rightarrow> (Inl e, w') | (Inr x, w') \<Rightarrow> f x w')"

text \<open>A \<^verbatim>\<open>for\<close> loop that appends one result for each element, left to right.\<close>

fun mapE :: "('a \<Rightarrow> ('b, 'g) prog) \<Rightarrow> 'a list \<Rightarrow> ('b list, 'g) prog" where
  "mapE f [] = ret []"
| "mapE f (x # xs) = bindE (f x) (\<lambda>y. bindE (mapE f xs) (\<lambda>ys. ret (y # ys)))"

subsection \<open>numpy and Python\<close>

text \<open>
  What \<^verbatim>\<open>np.loadtxt\<close> returns has the rank that is left after its \<^verbatim>\<open>np.squeeze\<close>:
  a file of several rows and several columns gives a 2-D array, a file of one row or of
  one column a 1-D array, a file of one number a 0-D array, an empty file an empty 1-D
  array.
\<close>

datatype nparr = Arr0 real | Arr1 "real list" | Arr2 ndarray

definition squeeze :: "ndarray \<Rightarrow> nparr" where
  "squeeze rows =
     (case rows of
        [] \<Rightarrow> Arr1 []
      | r # rs \<Rightarrow>
          if rs = [] then (case r of [x] \<Rightarrow> Arr0 x | _ \<Rightarrow> Arr1 r)
          else if length r = 1 then Arr1 (map hd rows)
          else Arr2 rows)"

text \<open>
  \<^verbatim>\<open>np.loadtxt(path, delimiter=",")\<close>. The file system is a function from paths to the
  rows of numbers of the file there. Rows of unequal length make \<^verbatim>\<open>loadtxt\<close> raise.
\<close>

definition loadtxt :: "(string \<rightharpoonup> ndarray) \<Rightarrow> read_event \<Rightarrow> string \<Rightarrow> (nparr, 'g) prog" where
  "loadtxt fs ev path =
     (\<lambda>w. let w' = w\<lparr>reads := reads w @ [ev]\<rparr>
          in case fs path of
               None \<Rightarrow> (Inl FileNotFoundError, w')
             | Some rows \<Rightarrow>
                 if \<exists>r \<in> set rows. length r \<noteq> length (hd rows) then (Inl ValueError, w')
                 else (Inr (squeeze rows), w'))"

text \<open>
  \<^verbatim>\<open>a.shape[0]\<close>, which a 0-D array does not have; the unpacking
  \<^verbatim>\<open>n, d = a.shape\<close>, which raises \<^verbatim>\<open>ValueError\<close> unless the array is 2-D (only
  \<open>n\<close> is used afterwards); and a 2-D index \<^verbatim>\<open>a[:, lo:hi]\<close> or \<^verbatim>\<open>a[sel, :]\<close>, which
  raises \<^verbatim>\<open>IndexError\<close> unless the array is 2-D.
\<close>

definition shape0 :: "nparr \<Rightarrow> py_error + nat" where
  "shape0 a =
     (case a of Arr0 x \<Rightarrow> Inl IndexError | Arr1 xs \<Rightarrow> Inr (length xs) | Arr2 rows \<Rightarrow> Inr (length rows))"

definition unpack_shape2 :: "nparr \<Rightarrow> py_error + nat" where
  "unpack_shape2 a = (case a of Arr2 rows \<Rightarrow> Inr (length rows) | _ \<Rightarrow> Inl ValueError)"

definition as_2d :: "nparr \<Rightarrow> py_error + ndarray" where
  "as_2d a = (case a of Arr2 rows \<Rightarrow> Inr rows | _ \<Rightarrow> Inl IndexError)"

text \<open>
  A file that \<^verbatim>\<open>np.loadtxt\<close> reads as a 2-D array: rows of equal length, at least two
  of them, and not a single column.
\<close>

definition csv_2d :: "ndarray \<Rightarrow> bool" where
  "csv_2d rows =
     (2 \<le> length rows \<and> length (hd rows) \<noteq> 1 \<and>
      list_all (\<lambda>r. length r = length (hd rows)) rows)"

text \<open>\<^verbatim>\<open>a[:, lo:hi]\<close>, which clips at the number of columns, and \<^verbatim>\<open>a[i]\<close> with Python's
  negative indices.\<close>

definition cols :: "nat \<Rightarrow> nat \<Rightarrow> 'a list list \<Rightarrow> 'a list list" where
  "cols lo hi a = map (\<lambda>r. take (hi - lo) (drop lo r)) a"

definition py_get :: "'a list \<Rightarrow> int \<Rightarrow> py_error + 'a" where
  "py_get xs i =
     (let n = int (length xs); j = (if i < 0 then n + i else i)
      in if 0 \<le> j \<and> j < n then Inr (xs ! nat j) else Inl IndexError)"

definition lift :: "py_error + 'a \<Rightarrow> ('a, 'g) prog" where
  "lift r = (\<lambda>w. (r, w))"

text \<open>\<^verbatim>\<open>a[select_nodes, :]\<close>: the rows at the selected places, in their order.\<close>

definition take_rows :: "'a list \<Rightarrow> nat list \<Rightarrow> py_error + 'a list" where
  "take_rows a sel =
     (if \<exists>i \<in> set sel. length a \<le> i then Inl IndexError else Inr (map (\<lambda>i. a ! i) sel))"

text \<open>\<^verbatim>\<open>.astype(np.int32)\<close> of an integer and \<^verbatim>\<open>np.int32(idx)\<close> of a numpy integer wrap
  around; \<^verbatim>\<open>np.int32(n)\<close> of a Python integer out of range raises.\<close>

definition astype_int32 :: "int \<Rightarrow> int" where
  "astype_int32 x = (x + 2 ^ 31) mod 2 ^ 32 - 2 ^ 31"

text \<open>\<^verbatim>\<open>str(n)\<close> of a natural number and \<^verbatim>\<open>f"{n:04d}"\<close> of an integer.\<close>

definition digit_char :: "nat \<Rightarrow> char" where
  "digit_char d = ''0123456789'' ! d"

fun digits :: "nat \<Rightarrow> string" where
  "digits n = (if n < 10 then [digit_char n] else digits (n div 10) @ [digit_char (n mod 10)])"

definition zero_pad :: "nat \<Rightarrow> string \<Rightarrow> string" where
  "zero_pad width s = replicate (width - length s) (CHR ''0'') @ s"

definition format_04d :: "int \<Rightarrow> string" where
  "format_04d n =
     (if n < 0 then CHR ''-'' # zero_pad 3 (digits (nat (- n))) else zero_pad 4 (digits (nat n)))"

text \<open>
  \<^verbatim>\<open>np.array_split(ary, Nsections)\<close> for an integer \<^verbatim>\<open>Nsections\<close>:
  \<^verbatim>\<open>
  if Nsections <= 0: raise ValueError('number sections must be larger than 0.')
  Neach_section, extras = divmod(Ntotal, Nsections)
  section_sizes = [0] + extras * [Neach_section + 1] + (Nsections - extras) * [Neach_section]
  div_points = array(section_sizes).cumsum()
  \<close>
  and the sub-arrays are the slices between consecutive division points, that is,
  consecutive pieces of the listed sizes.
\<close>

fun pieces :: "nat list \<Rightarrow> 'a list \<Rightarrow> 'a list list" where
  "pieces [] xs = []"
| "pieces (n # ns) xs = take n xs # pieces ns (drop n xs)"

definition section_sizes :: "nat \<Rightarrow> nat \<Rightarrow> nat list" where
  "section_sizes Ntotal Nsections =
     (let Neach_section = Ntotal div Nsections; extras = Ntotal mod Nsections
      in replicate extras (Neach_section + 1) @ replicate (Nsections - extras) Neach_section)"

definition array_split :: "'a list \<Rightarrow> int \<Rightarrow> py_error + 'a list list" where
  "array_split ary Nsections =
     (if Nsections \<le> 0 then Inl ValueError
      else Inr (pieces (section_sizes (length ary) (nat Nsections)) ary))"

text \<open>\<^verbatim>\<open>a // b\<close> of Python integers.\<close>

definition floordiv :: "int \<Rightarrow> int \<Rightarrow> py_error + int" where
  "floordiv a b = (if b = 0 then Inl ZeroDivisionError else Inr (a div b))"

subsection \<open>What the class takes from outside this file\<close>

text \<open>
  The constants of \<^verbatim>\<open>common.constant\<close>, the file system, \<^verbatim>\<open>np.random.choice(a, size,
  replace=False)\<close> as a function of the generator, and the two edge generators of
  \<^verbatim>\<open>pkg.data_utils.edge_generation\<close>, whose code is not part of this development:
  \<open>generate_distance_based_edges_ny\<close> takes a batch of coordinate arrays and the
  indices into the batch and returns a batch of edge arrays,
  \<open>generate_distance_based_edges_nb\<close> takes one coordinate array and returns one edge
  array.
\<close>

record 'g env =
  DARWIN :: string
  TRAIN_NAME :: string
  VALIDATION_NAME :: string
  fs :: "string \<rightharpoonup> ndarray"
  random_choice :: "'g \<Rightarrow> nat \<Rightarrow> nat \<Rightarrow> nat list \<times> 'g"
  generate_distance_based_edges_ny ::
    "ndarray list \<Rightarrow> int list \<Rightarrow> int list \<Rightarrow> int list \<Rightarrow> int list list list"
  generate_distance_based_edges_nb :: "ndarray \<Rightarrow> int list \<Rightarrow> int list \<Rightarrow> int list list"

subsection \<open>The class\<close>

record prep =
  sample_indices :: "int list"
  chunk_file_size :: int
  sections :: "int list"
  nodes_per_sections :: "int list"
  train_down_sampling_node :: "int option"
  val_down_sampling_node :: "int option"
  data_type :: string
  platform :: string
  inputs_data_path :: string
  outputs_data_path :: string
  global_feature_data_path :: string
  shape_data_path :: string

text \<open>The truth value of an optional number: \<^verbatim>\<open>None\<close> and \<open>0\<close> are false.\<close>

definition truthy :: "int option \<Rightarrow> bool" where
  "truthy x = (x \<noteq> None \<and> x \<noteq> Some 0)"

text \<open>\<^verbatim>\<open>f"/ct_case_{idx + 1:04d}.csv"\<close>\<close>

definition read_file_name :: "int \<Rightarrow> string" where
  "read_file_name idx = ''/ct_case_'' @ format_04d (idx + 1) @ ''.csv''"

text \<open>
  \<^verbatim>\<open>
  def _down_sampling_node(self, record_inputs, record_outputs):
      num_nodes, record_inputs_dim = record_inputs.shape
      _, record_outputs_dim = record_outputs.shape
      num_down_sample_node = (
          self.train_down_sampling_node if self.data_type == TRAIN_NAME
          else self.val_down_sampling_node)
      if num_down_sample_node > num_nodes:
          raise ValueError("num_down_sample_node error, ...")
      select_nodes = np.random.choice(num_nodes, size=num_down_sample_node, replace=False)
      return record_inputs[select_nodes, :], record_outputs[select_nodes, :]
  \<close>
  \<^verbatim>\<open>None > num_nodes\<close> raises \<^verbatim>\<open>TypeError\<close>; a negative \<^verbatim>\<open>size\<close> makes
  \<^verbatim>\<open>np.random.choice\<close> raise \<^verbatim>\<open>ValueError\<close>.
\<close>

definition down_sampling_node ::
  "'g env \<Rightarrow> prep \<Rightarrow> nparr \<Rightarrow> nparr \<Rightarrow> (nparr \<times> nparr, 'g) prog" where
  "down_sampling_node E self record_inputs record_outputs =
     bindE (lift (unpack_shape2 record_inputs)) (\<lambda>num_nodes.
     bindE (lift (unpack_shape2 record_outputs)) (\<lambda>_.
       let num_down_sample_node =
             (if data_type self = TRAIN_NAME E then train_down_sampling_node self
              else val_down_sampling_node self)
       in case num_down_sample_node of
            None \<Rightarrow> raise TypeError
          | Some n \<Rightarrow>
              if n > int num_nodes then raise DownSampleNodeError
              else if n < 0 then raise ValueError
              else (\<lambda>w. case random_choice E (rng w) num_nodes (nat n) of
                          (select_nodes, g') \<Rightarrow>
                            bindE (lift (as_2d record_inputs)) (\<lambda>inputs.
                            bindE (lift (take_rows inputs select_nodes)) (\<lambda>ri.
                            bindE (lift (as_2d record_outputs)) (\<lambda>outputs.
                            bindE (lift (take_rows outputs select_nodes)) (\<lambda>ro.
                            ret (Arr2 ri, Arr2 ro))))) (w\<lparr>rng := g'\<rparr>))))"

text \<open>
  \<^verbatim>\<open>
  def _generate_distance_based_edges(self, node_coords):
      if self.platform == DARWIN:
          return generate_distance_based_edges_ny(
              node_coords[np.newaxis, :, :], [0], self.sections, self.nodes_per_sections)
      ...
      return generate_distance_based_edges_nb(node_coords, sections_nb, nodes_per_section_nb)[
          np.newaxis, :].astype(np.int32)
  \<close>
\<close>

definition generate_distance_based_edges :: "'g env \<Rightarrow> prep \<Rightarrow> ndarray \<Rightarrow> int list list list" where
  "generate_distance_based_edges E self node_coords =
     (if platform self = DARWIN E
      then generate_distance_based_edges_ny E [node_coords] [0] (sections self) (nodes_per_sections self)
      else [map (map astype_int32)
              (generate_distance_based_edges_nb E node_coords (sections self) (nodes_per_sections self))])"

text \<open>
  The body of the inner loop of \<^verbatim>\<open>_data_generation\<close>, in two parts: the arrays of the
  sample as they are after the reads and the down-sampling, with the number of rows
  read, and the dictionary made of them.
  \<^verbatim>\<open>
  read_file_name = f"/ct_case_{idx + 1:04d}.csv"
  record_inputs = np.loadtxt(self.inputs_data_path + read_file_name, ...)
  record_outputs = np.loadtxt(self.outputs_data_path + read_file_name, ...)
  points = record_inputs.shape[0]
  if self.data_type == VALIDATION_NAME or self.val_down_sampling_node:
      record_inputs, record_outputs = self._down_sampling_node(record_inputs, record_outputs)
  if self.data_type == TRAIN_NAME and self.train_down_sampling_node:
      record_inputs, record_outputs = self._down_sampling_node(record_inputs, record_outputs)
  \<close>
\<close>

definition sample_arrays :: "'g env \<Rightarrow> prep \<Rightarrow> int \<Rightarrow> (nat \<times> nparr \<times> nparr, 'g) prog" where
  "sample_arrays E self idx =
     bindE (loadtxt (fs E) (CaseInput (read_file_name idx)) (inputs_data_path self @ read_file_name idx))
       (\<lambda>inputs0.
     bindE (loadtxt (fs E) (CaseOutput (read_file_name idx)) (outputs_data_path self @ read_file_name idx))
       (\<lambda>outputs0.
     bindE (lift (shape0 inputs0)) (\<lambda>n_points.
     bindE (if data_type self = VALIDATION_NAME E \<or> truthy (val_down_sampling_node self)
            then down_sampling_node E self inputs0 outputs0 else ret (inputs0, outputs0))
       (\<lambda>(inputs1, outputs1).
     bindE (if data_type self = TRAIN_NAME E \<and> truthy (train_down_sampling_node self)
            then down_sampling_node E self inputs1 outputs1 else ret (inputs1, outputs1))
       (\<lambda>(record_inputs, record_outputs).
     ret (n_points, record_inputs, record_outputs))))))"

text \<open>
  \<^verbatim>\<open>
  edge = self._generate_distance_based_edges(record_inputs[:, 0:3])
  datasets.append({
      "index": np.array([np.int32(idx)]),
      "points": np.array([np.int32(points)]),
      "node_coord": record_inputs[:, 0:3],
      "laplace_coord": record_inputs[:, 3:11],
      "fiber_and_sheet": record_inputs[:, 11:17],
      "edges_indices": edge[0].astype(np.int32),
      "mat_param": data_global_feature[:, 1:7][idx],
      "pressure": data_global_feature[:, 7:9][idx],
      "shape_coeffs": data_shape_coeff[:, 1:59][idx],
      "displacement": record_outputs[:, 0:3],
      "stress": record_outputs[:, 3:4],
  })
  \<close>
\<close>

definition sample_dict ::
  "'g env \<Rightarrow> prep \<Rightarrow> nparr \<Rightarrow> nparr \<Rightarrow> int \<Rightarrow> nat \<times> nparr \<times> nparr \<Rightarrow> py_error + sample" where
  "sample_dict E self data_global_feature data_shape_coeff idx arrays =
     (case arrays of (n_points, record_inputs, record_outputs) \<Rightarrow>
        case as_2d record_inputs of Inl e \<Rightarrow> Inl e | Inr inputs \<Rightarrow>
        let edge = generate_distance_based_edges E self (cols 0 3 inputs)
        in if 2 ^ 31 \<le> int n_points then Inl OverflowError
           else
             case py_get edge 0 of Inl e \<Rightarrow> Inl e | Inr edge0 \<Rightarrow>
             case as_2d data_global_feature of Inl e \<Rightarrow> Inl e | Inr global_feature \<Rightarrow>
             case py_get (cols 1 7 global_feature) idx of Inl e \<Rightarrow> Inl e | Inr mp \<Rightarrow>
             case py_get (cols 7 9 global_feature) idx of Inl e \<Rightarrow> Inl e | Inr pr \<Rightarrow>
             case as_2d data_shape_coeff of Inl e \<Rightarrow> Inl e | Inr shape_coeff \<Rightarrow>
             case py_get (cols 1 59 shape_coeff) idx of Inl e \<Rightarrow> Inl e | Inr sc \<Rightarrow>
             case as_2d record_outputs of Inl e \<Rightarrow> Inl e | Inr outputs \<Rightarrow>
             Inr \<lparr>index = astype_int32 idx,
                  points = int n_points,
                  node_coord = cols 0 3 inputs,
                  laplace_coord = cols 3 11 inputs,
                  fiber_and_sheet = cols 11 17 inputs,
                  edges_indices = map (map astype_int32) edge0,
                  mat_param = mp,
                  pressure = pr,
                  shape_coeffs = sc,
                  displacement = cols 0 3 outputs,
                  stress = cols 3 4 outputs\<rparr>)"

definition process_sample :: "'g env \<Rightarrow> prep \<Rightarrow> nparr \<Rightarrow> nparr \<Rightarrow> int \<Rightarrow> (sample, 'g) prog" where
  "process_sample E self data_global_feature data_shape_coeff idx =
     bindE (sample_arrays E self idx)
       (\<lambda>arrays. lift (sample_dict E self data_global_feature data_shape_coeff idx arrays))"

text \<open>
  \<^verbatim>\<open>
  with h5py.File(self.dataset_h5_path.format(i), "w") as f:
      for idx, sample_dict in enumerate(datasets):
          group = f.create_group(f"idx_{idx}")
          for key, value in sample_dict.items():
              group.create_dataset(key, data=value)
  \<close>
  The file is named by its number \<open>i\<close>; its contents are its groups, by name.
\<close>

definition write_h5 :: "nat \<Rightarrow> sample list \<Rightarrow> (unit, 'g) prog" where
  "write_h5 i datasets =
     (\<lambda>w. (Inr (),
            w\<lparr>h5_files := h5_files w @
                 [(i, map (\<lambda>(idx, d). (''idx_'' @ digits idx, d))
                        (enumerate 0 datasets))]\<rparr>))"

text \<open>
  \<^verbatim>\<open>
  def _data_generation(self):
      data_global_feature = np.loadtxt(self.global_feature_data_path, delimiter=",")
      data_shape_coeff = np.loadtxt(self.shape_data_path, delimiter=",")
      sample_indices = np.array_split(
          self.sample_indices, len(self.sample_indices) // self.chunk_file_size)
      for i, indices in enumerate(sample_indices):
          datasets = []
          for idx in indices:
              ...
          with h5py.File(...) as f: ...
  \<close>
\<close>

definition data_generation :: "'g env \<Rightarrow> prep \<Rightarrow> (unit, 'g) prog" where
  "data_generation E self =
     bindE (loadtxt (fs E) (Table (global_feature_data_path self)) (global_feature_data_path self))
       (\<lambda>data_global_feature.
     bindE (loadtxt (fs E) (Table (shape_data_path self)) (shape_data_path self))
       (\<lambda>data_shape_coeff.
     bindE (lift (floordiv (int (length (sample_indices self))) (chunk_file_size self)))
       (\<lambda>Nsections.
     bindE (lift (array_split (sample_indices self) Nsections))
       (\<lambda>chunks.
     bindE (mapE (\<lambda>(i, indices).
                    bindE (mapE (process_sample E self data_global_feature data_shape_coeff) indices)
                      (write_h5 i))
              (enumerate 0 chunks))
       (\<lambda>_. ret ())))))"

subsection \<open>The statistics pass\<close>

text \<open>
  \<^verbatim>\<open>x if x_set is None else np.concatenate([x_set, x], axis=0)\<close>; the arrays must agree
  in the number of columns.
\<close>

definition concat0 :: "ndarray option \<Rightarrow> ndarray \<Rightarrow> py_error + ndarray option" where
  "concat0 x_set x =
     (case x_set of
        None \<Rightarrow> Inr (Some x)
      | Some s \<Rightarrow>
          if s \<noteq> [] \<and> x \<noteq> [] \<and> length (hd s) \<noteq> length (hd x) then Inl ValueError
          else Inr (Some (s @ x)))"

text \<open>A \<^verbatim>\<open>for\<close> loop that updates its variables for each element, left to right.\<close>

fun foldE :: "('a \<Rightarrow> 'b \<Rightarrow> ('b, 'g) prog) \<Rightarrow> 'a list \<Rightarrow> 'b \<Rightarrow> ('b, 'g) prog" where
  "foldE f [] a = ret a"
| "foldE f (x # xs) a = bindE (f x a) (foldE f xs)"

text \<open>
  \<^verbatim>\<open>
  def _data_node_stats(self, write_to_path=True):
      node_coord_set = None; laplace_coord_set = None; fiber_and_sheet_set = None
      for idx in range(len(self.sample_indices)):
          read_file_name = f"/ct_case_{idx + 1:04d}.csv"
          record_inputs = np.loadtxt(self.inputs_data_path + read_file_name, delimiter=",")
          node_coord = record_inputs[:, 0:3]
          node_coord_set = (node_coord if node_coord_set is None
                            else np.concatenate([node_coord_set, node_coord], axis=0))
          ... (the same for record_inputs[:, 3:11] and record_inputs[:, 11:17])
      stats_analysis("node_coord", node_coord_set, 0, ...)
      ...
  \<close>
  The model returns the three arrays that are handed to \<^verbatim>\<open>stats_analysis\<close> of
  \<^verbatim>\<open>pkg.data_utils.stats\<close>, which is not part of this development.
\<close>

definition data_node_stats ::
  "'g env \<Rightarrow> prep \<Rightarrow> (ndarray option \<times> ndarray option \<times> ndarray option, 'g) prog" where
  "data_node_stats E self =
     foldE (\<lambda>idx (node_coord_set, laplace_coord_set, fiber_and_sheet_set).
              bindE (loadtxt (fs E) (CaseInput (read_file_name idx))
                       (inputs_data_path self @ read_file_name idx)) (\<lambda>inputs0.
              bindE (lift (as_2d inputs0)) (\<lambda>record_inputs.
              bindE (lift (concat0 node_coord_set (cols 0 3 record_inputs))) (\<lambda>s1.
              bindE (lift (concat0 laplace_coord_set (cols 3 11 record_inputs))) (\<lambda>s2.
              bindE (lift (concat0 fiber_and_sheet_set (cols 11 17 record_inputs))) (\<lambda>s3.
              ret (s1, s2, s3)))))))
       (map int [0..<length (sample_indices self)]) (None, None, None)"

text \<open>
  \<^verbatim>\<open>
  def _data_label_stats(self, write_to_path=True):
      displacement_set = None; stress_set = None
      for idx in range(len(self.sample_indices)):
          read_file_name = f"/ct_case_{idx + 1:04d}.csv"
          record_output = np.loadtxt(self.outputs_data_path + read_file_name, delimiter=",")
          ... (record_output[:, 0:3] and record_output[:, 3:4], as above)
  \<close>
\<close>

definition data_label_stats :: "'g env \<Rightarrow> prep \<Rightarrow> (ndarray option \<times> ndarray option, 'g) prog" where
  "data_label_stats E self =
     foldE (\<lambda>idx (displacement_set, stress_set).
              bindE (loadtxt (fs E) (CaseOutput (read_file_name idx))
                       (outputs_data_path self @ read_file_name idx)) (\<lambda>outputs0.
              bindE (lift (as_2d outputs0)) (\<lambda>record_output.
              bindE (lift (concat0 displacement_set (cols 0 3 record_output))) (\<lambda>s1.
              bindE (lift (concat0 stress_set (cols 3 4 record_output))) (\<lambda>s2.
              ret (s1, s2))))))
       (map int [0..<length (sample_indices self)]) (None, None)"

text \<open>The names of the case files among the reads, by the directory they were read from.\<close>

fun input_names :: "read_event list \<Rightarrow> string list" where
  "input_names [] = []"
| "input_names (CaseInput n # evs) = n # input_names evs"
| "input_names (ev # evs) = input_names evs"

fun output_names :: "read_event list \<Rightarrow> string list" where
  "output_names [] = []"
| "output_names (CaseOutput n # evs) = n # output_names evs"
| "output_names (ev # evs) = output_names evs"

text \<open>The number that a string of decimal digits, leading zeros allowed, stands for.\<close>

definition digit_val :: "char \<Rightarrow> nat" where
  "digit_val c = of_char c - 48"

definition dec_val :: "string \<Rightarrow> nat" where
  "dec_val s = foldl (\<lambda>a c. 10 * a + digit_val c) 0 s"

text \<open>The claim's words about one written sample.\<close>

definition down_sampled :: "'g env \<Rightarrow> prep \<Rightarrow> bool" where
  "down_sampled E self =
     ((data_type self = VALIDATION_NAME E \<or> truthy (val_down_sampling_node self)) \<or>
      (data_type self = TRAIN_NAME E \<and> truthy (train_down_sampling_node self)))"

definition selection_of :: "ndarray \<Rightarrow> ndarray \<Rightarrow> ndarray \<Rightarrow> ndarray \<Rightarrow> bool" where
  "selection_of inputs outputs ri ro =
     (\<exists>sel. list_all (\<lambda>i. i < length inputs \<and> i < length outputs) sel \<and>
            ri = map ((!) inputs) sel \<and> ro = map ((!) outputs) sel)"

definition written_sample :: "'g env \<Rightarrow> prep \<Rightarrow> int \<Rightarrow> sample \<Rightarrow> bool" where
  "written_sample E self idx s =
     (\<exists>inputs outputs ri ro e0 w1 w2.
        fs E (inputs_data_path self @ read_file_name idx) = Some inputs \<and>
        fs E (outputs_data_path self @ read_file_name idx) = Some outputs \<and>
        csv_2d inputs \<and> csv_2d outputs \<and>
        sample_arrays E self idx w1 = (Inr (length inputs, Arr2 ri, Arr2 ro), w2) \<and>
        (if down_sampled E self then selection_of inputs outputs ri ro
         else ri = inputs \<and> ro = outputs) \<and>
        index s = astype_int32 idx \<and>
        points s = int (length inputs) \<and>
        node_coord s = cols 0 3 ri \<and>
        laplace_coord s = cols 3 11 ri \<and>
        fiber_and_sheet s = cols 11 17 ri \<and>
        displacement s = cols 0 3 ro \<and>
        stress s = cols 3 4 ro \<and>
        py_get (generate_distance_based_edges E self (cols 0 3 ri)) 0 = Inr e0 \<and>
        edges_indices s = map (map astype_int32) e0)"

definition case_reads :: "int \<Rightarrow> read_event list" where
  "case_reads idx = [CaseInput (read_file_name idx), CaseOutput (read_file_name idx)]"

definition group_names :: "nat \<Rightarrow> string list" where
  "group_names n = map (\<lambda>j. ''idx_'' @ digits j) [0..<n]"


definition named_groups :: "sample list \<Rightarrow> sample pydict" where
  "named_groups datasets = map (\<lambda>(idx, d). (''idx_'' @ digits idx, d)) (enumerate 0 datasets)"

text \<open>The claim's words: the node count that \<^verbatim>\<open>_down_sampling_node\<close> is asked for.\<close>

definition requested_nodes :: "'g env \<Rightarrow> prep \<Rightarrow> int option" where
  "requested_nodes E self =
     (if data_type self = TRAIN_NAME E then train_down_sampling_node self
      else val_down_sampling_node self)"

text \<open>
  A small run: one table of five rows stands for every file, \<^verbatim>\<open>np.random.choice\<close> takes
  the first rows, and the edge generators return two fixed edges.
\<close>

definition table0 :: ndarray where
  "table0 = [[0, 1, 2, 3, 4], [10, 11, 12, 13, 14], [20, 21, 22, 23, 24],
             [30, 31, 32, 33, 34], [40, 41, 42, 43, 44]]"

definition E0 :: "unit env" where
  "E0 = \<lparr>DARWIN = ''Darwin'', TRAIN_NAME = ''TRAIN'', VALIDATION_NAME = ''VALIDATION'',
         fs = (\<lambda>path. Some table0),
         random_choice = (\<lambda>g a size. ([0..<size], g)),
         generate_distance_based_edges_ny = (\<lambda>batch indices s n. map (\<lambda>nc. [[0, 1], [1, 0]]) batch),
         generate_distance_based_edges_nb = (\<lambda>nc s n. [[0, 1], [1, 0]])\<rparr>"

definition prep0 :: prep where
  "prep0 = \<lparr>sample_indices = [0, 1, 2, 3, 4], chunk_file_size = 2, sections = [0, 1],
            nodes_per_sections = [1], train_down_sampling_node = None,
            val_down_sampling_node = None, data_type = ''TRAIN'', platform = ''Linux'',
            inputs_data_path = ''in'', outputs_data_path = ''out'',
            global_feature_data_path = ''global.csv'', shape_data_path = ''shape.csv''\<rparr>"

definition w0 :: "unit world" where
  "w0 = \<lparr>rng = (), reads = [], h5_files = []\<rparr>"

definition prep_val :: prep where
  "prep_val = prep0\<lparr>data_type := ''VALIDATION''\<rparr>"

definition group_counts :: "'g world \<Rightarrow> nat list" where
  "group_counts w = map (\<lambda>f. length (snd f)) (h5_files w)"

text \<open>
  The claim's words about the files: how many there are, and how many samples file
  \<open>i\<close> holds.
\<close>

definition file_count :: "prep \<Rightarrow> nat" where
  "file_count self = nat (int (length (sample_indices self)) div chunk_file_size self)"

definition file_size :: "prep \<Rightarrow> nat \<Rightarrow> nat" where
  "file_size self i =
     length (sample_indices self) div file_count self +
     (if i < length (sample_indices self) mod file_count self then 1 else 0)"

definition prep1 :: prep where
  "prep1 = prep0\<lparr>sample_indices := [0, 1], chunk_file_size := 1\<rparr>"

text \<open>The names of the case files that a loop over \<^verbatim>\<open>range(n)\<close> reads.\<close>

definition range_names :: "nat \<Rightarrow> string list" where
  "range_names n = map (\<lambda>i. read_file_name (int i)) [0..<n]"

section \<open>Theorems: \<^verbatim>\<open>get_repo_path\<close>\<close>

lemma dirname_root: "dirname ''/'' = ''/''"
  by (simp add: dirname_def)

lemma repo_loop_not_root:
  assumes "repo_loop exists d = Some r"
  shows "\<not> exists ''/.git'' \<longrightarrow> d \<noteq> ''/''"
proof (rule repo_loop.raw_induct
    [where P = "\<lambda>ex d r. \<not> ex ''/.git'' \<longrightarrow> d \<noteq> ''/''", OF _ assms])
  fix rec ex d r
  assume IH: "\<And>ex' d' r'. rec ex' d' = Some r' \<Longrightarrow> \<not> ex' ''/.git'' \<longrightarrow> d' \<noteq> ''/''"
    and step: "(if d \<noteq> [] \<and> \<not> ex (path_join d ''.git'') then rec ex (dirname d) else Some d) = Some r"
  show "\<not> ex ''/.git'' \<longrightarrow> d \<noteq> ''/''"
  proof (intro impI notI)
    assume ng: "\<not> ex ''/.git''" and d: "d = ''/''"
    with step have "rec ex ''/'' = Some r"
      by (simp add: path_join_def startswith_def endswith_def dirname_root)
    from IH[OF this] ng show False by simp
  qed
qed

lemma repo_loop_root_diverges:
  assumes "\<not> exists ''/.git''"
  shows "repo_loop exists ''/'' = None"
proof (cases "repo_loop exists ''/''")
  case None
  then show ?thesis .
next
  case (Some y)
  from repo_loop_not_root[OF this] assms show ?thesis by simp
qed

text \<open>
  What the loop returns, when it returns, is empty or a directory with a \<^verbatim>\<open>.git\<close> entry;
  it does return on a relative path, and on an absolute one below a repository.
\<close>

lemma repo_loop_result:
  assumes "repo_loop exists d = Some r"
  shows "r = [] \<or> exists (path_join r ''.git'')"
proof (rule repo_loop.raw_induct
    [where P = "\<lambda>ex d r. r = [] \<or> ex (path_join r ''.git'')", OF _ assms])
  fix rec ex d r
  assume IH: "\<And>ex' d' r'. rec ex' d' = Some r' \<Longrightarrow> r' = [] \<or> ex' (path_join r' ''.git'')"
    and step: "(if d \<noteq> [] \<and> \<not> ex (path_join d ''.git'') then rec ex (dirname d) else Some d) = Some r"
  show "r = [] \<or> ex (path_join r ''.git'')"
  proof (cases "d \<noteq> [] \<and> \<not> ex (path_join d ''.git'')")
    case True
    with step have "rec ex (dirname d) = Some r" by simp
    then show ?thesis by (rule IH)
  next
    case False
    with step have "r = d" by simp
    with False show ?thesis by auto
  qed
qed

lemma get_repo_path_relative_returns:
  "get_repo_path (\<lambda>p. False) ''a/b.py'' = Some []"
proof -
  have 1: "dirname ''a/b.py'' = ''a''" by (simp add: dirname_def rstrip_def)
  have 2: "dirname ''a'' = []" by (simp add: dirname_def)
  have "repo_loop (\<lambda>p. False) [] = Some []"
    by (subst repo_loop.simps) simp
  then have "repo_loop (\<lambda>p. False) ''a'' = Some []"
    by (subst repo_loop.simps) (simp add: 2)
  then show ?thesis by (simp add: get_repo_path_def 1)
qed

lemma get_repo_path_found:
  "get_repo_path (\<lambda>p. p = ''/a/.git'') ''/a/b/c.py'' = Some ''/a''"
proof -
  have 1: "dirname ''/a/b/c.py'' = ''/a/b''" by (simp add: dirname_def rstrip_def)
  have 2: "dirname ''/a/b'' = ''/a''" by (simp add: dirname_def rstrip_def)
  have "repo_loop (\<lambda>p. p = ''/a/.git'') ''/a'' = Some ''/a''"
    by (subst repo_loop.simps) (simp add: path_join_def startswith_def endswith_def)
  then have "repo_loop (\<lambda>p. p = ''/a/.git'') ''/a/b'' = Some ''/a''"
    by (subst repo_loop.simps) (simp add: 2 path_join_def startswith_def endswith_def)
  then show ?thesis by (simp add: get_repo_path_def 1)
qed

text \<open>
  C10. With no \<^verbatim>\<open>.git\<close> entry anywhere, \<^verbatim>\<open>get_repo_path("/a/b.py")\<close> does not
  return: the directory goes from \<^verbatim>\<open>/a\<close> to \<^verbatim>\<open>/\<close>, and \<^verbatim>\<open>dirname("/")\<close> is
  \<^verbatim>\<open>/\<close> again, which is not the empty string that would end the loop.
\<close>

theorem get_repo_path_absolute_diverges:
  "get_repo_path (\<lambda>p. False) ''/a/b.py'' = None"
proof -
  have 1: "dirname ''/a/b.py'' = ''/a''" by (simp add: dirname_def rstrip_def)
  have 2: "dirname ''/a'' = ''/''" by (simp add: dirname_def)
  have "repo_loop (\<lambda>p. False) ''/a'' = repo_loop (\<lambda>p. False) ''/''"
    by (subst repo_loop.simps) (simp add: 2)
  then show ?thesis
    by (simp add: get_repo_path_def 1 repo_loop_root_diverges)
qed

section \<open>Theorems: \<^verbatim>\<open>create_loss\<close>\<close>

lemma create_loss_raises_iff:
  "fst (create_loss [''name'' \<mapsto> name] self) = Some LossNameError
     \<longleftrightarrow> name \<noteq> ''euclidean_distance_mse''"
  by (simp add: create_loss_def Let_def)

text \<open>
  C6. For the recognised name \<^verbatim>\<open>mse\<close>, \<^verbatim>\<open>create_loss\<close> sets the loss to
  \<^verbatim>\<open>nn.MSELoss\<close> and then raises the \<^verbatim>\<open>ValueError\<close> of the \<^verbatim>\<open>else\<close> branch.
\<close>

theorem create_loss_mse_raises:
  "create_loss [''name'' \<mapsto> ''mse''] self = (Some LossNameError, self\<lparr>loss := Some MSELoss\<rparr>)"
  by (simp add: create_loss_def)

section \<open>Theorems: the normalization transforms keep what is not configured\<close>

lemma update_items_all2:
  "update_items f d = Inr d' \<Longrightarrow>
     list_all2 (\<lambda>(n, v) (n', v'). n' = n \<and> f n v = Inr v') d d'"
proof (induction d arbitrary: d')
  case Nil
  then show ?case by simp
next
  case (Cons a d)
  obtain n v where a: "a = (n, v)" by (cases a)
  from Cons.prems a obtain v' r' where
    "f n v = Inr v'" "update_items f d = Inr r'" "d' = (n, v') # r'"
    by (auto split: sum.splits)
  with Cons.IH[of r'] a show ?case by simp
qed

lemma update_items_frame:
  assumes "update_items f d = Inr d'" and "\<And>n v. n \<notin> S \<Longrightarrow> f n v = Inr v"
  shows "unchanged_outside S d d'"
proof -
  from update_items_all2[OF assms(1)]
  have a2: "list_all2 (\<lambda>(n, v) (n', v'). n' = n \<and> f n v = Inr v') d d'" .
  then have len: "length d = length d'" by (rule list_all2_lengthD)
  have nth: "fst (d' ! i) = fst (d ! i) \<and> f (fst (d ! i)) (snd (d ! i)) = Inr (snd (d' ! i))"
    if "i < length d" for i
    using list_all2_nthD[OF a2 that] by (auto simp: case_prod_beta)
  have "map fst d' = map fst d"
    using len nth by (auto intro: nth_equalityI)
  moreover have "d' ! i = d ! i" if "i < length d" "fst (d ! i) \<notin> S" for i
    using nth[OF that(1)] assms(2)[OF that(2), of "snd (d ! i)"]
    by (auto intro: prod_eqI)
  ultimately show ?thesis by (simp add: unchanged_outside_def)
qed

text \<open>
  C9. When \<^verbatim>\<open>MaxMinNorm.__call__\<close> or \<^verbatim>\<open>NormalNorm.__call__\<close> returns, both
  dictionaries have the keys they had, in the same order, and every entry whose name is
  not a key of \<^verbatim>\<open>feature_config\<close> has the value it had, whatever the dtype.
\<close>

theorem norm_frame:
  "(MaxMinNorm_call F self (context, feature) = Inr (context', feature') \<longrightarrow>
      unchanged_outside (dom (feature_config self)) context context' \<and>
      unchanged_outside (dom (feature_config self)) feature feature') \<and>
   (NormalNorm_call F2 MEAN_VAL STD_VAL self2 (context, feature) = Inr (context2, feature2) \<longrightarrow>
      unchanged_outside (dom (feature_config self2)) context context2 \<and>
      unchanged_outside (dom (feature_config self2)) feature feature2)"
proof (intro conjI impI)
  assume c: "MaxMinNorm_call F self (context, feature) = Inr (context', feature')"
  have f: "n \<notin> dom (feature_config self) \<Longrightarrow> maxmin_item F self n v = Inr v" for n v
    by (simp add: maxmin_item_def)
  from c have uc: "update_items (maxmin_item F self) context = Inr context'"
    and uf: "update_items (maxmin_item F self) feature = Inr feature'"
    by (auto simp: MaxMinNorm_call_def split: sum.splits)
  show "unchanged_outside (dom (feature_config self)) context context'"
    using uc f by (rule update_items_frame)
  show "unchanged_outside (dom (feature_config self)) feature feature'"
    using uf f by (rule update_items_frame)
next
  assume c: "NormalNorm_call F2 MEAN_VAL STD_VAL self2 (context, feature) = Inr (context2, feature2)"
  have f: "n \<notin> dom (feature_config self2) \<Longrightarrow> normal_item F2 MEAN_VAL STD_VAL self2 n v = Inr v" for n v
    by (simp add: normal_item_def)
  from c have uc: "update_items (normal_item F2 MEAN_VAL STD_VAL self2) context = Inr context2"
    and uf: "update_items (normal_item F2 MEAN_VAL STD_VAL self2) feature = Inr feature2"
    by (auto simp: NormalNorm_call_def split: sum.splits)
  show "unchanged_outside (dom (feature_config self2)) context context2"
    using uc f by (rule update_items_frame)
  show "unchanged_outside (dom (feature_config self2)) feature feature2"
    using uf f by (rule update_items_frame)
qed

lemma dom_stats0: "dom stats0 = {''a''}"
  by (auto simp: stats0_def)

lemmas exact32_simps = exact32_def fsub_def fdiv_def fl_of_real_def is_inf_def zero_of_def
  inf_of_def Let_def

lemma maxmin0_run:
  "MaxMinNorm_call exact32 maxmin0 ([(''a'', [[Fin 2]]), (''b'', [[Fin 5]])], [(''c'', [[Fin 7]])])
   = Inr ([(''a'', [[Fin (1/2)]]), (''b'', [[Fin 5]])], [(''c'', [[Fin 7]])])"
  by (simp add: MaxMinNorm_call_def maxmin_item_def maxmin_bounds_def maxmin0_def stats0_def lookup_def
      normal_max_min_transform_def bc_vec_def exact32_simps)

lemma normal0_run:
  "NormalNorm_call exact32 ''mean_val'' ''std_val'' normal0
     ([(''a'', [[Fin 2]]), (''b'', [[Fin 5]])], [(''c'', [[Fin 7]])])
   = Inr ([(''a'', [[Fin (1/2)]]), (''b'', [[Fin 5]])], [(''c'', [[Fin 7]])])"
  by (simp add: NormalNorm_call_def normal_item_def normal0_def stats0_def lookup_def
      normal_transform_def bc_vec_def exact32_simps)

theorem norm_frame_witness:
  "MaxMinNorm_call exact32 maxmin0 ([(''a'', [[Fin 2]]), (''b'', [[Fin 5]])], [(''c'', [[Fin 7]])])
     = Inr ([(''a'', [[Fin (1/2)]]), (''b'', [[Fin 5]])], [(''c'', [[Fin 7]])]) \<and>
   NormalNorm_call exact32 ''mean_val'' ''std_val'' normal0
       ([(''a'', [[Fin 2]]), (''b'', [[Fin 5]])], [(''c'', [[Fin 7]])])
     = Inr ([(''a'', [[Fin (1/2)]]), (''b'', [[Fin 5]])], [(''c'', [[Fin 7]])]) \<and>
   unchanged_outside {''a''} [(''a'', [[Fin 2]]), (''b'', [[Fin 5]])]
     [(''a'', [[Fin (1/2)]]), (''b'', [[Fin 5]])] \<and>
   unchanged_outside {''a''} [(''c'', [[Fin 7]])] [(''c'', [[Fin 7]])]"
  using norm_frame[of exact32 maxmin0 "[(''a'', [[Fin 2]]), (''b'', [[Fin 5]])]" "[(''c'', [[Fin 7]])]"
      "[(''a'', [[Fin (1/2)]]), (''b'', [[Fin 5]])]" "[(''c'', [[Fin 7]])]"
      exact32 "''mean_val''" "''std_val''" normal0
      "[(''a'', [[Fin (1/2)]]), (''b'', [[Fin 5]])]" "[(''c'', [[Fin 7]])]"] maxmin0_run normal0_run
  by (simp add: dom_stats0 maxmin0_def normal0_def)

section \<open>Theorems: what \<^verbatim>\<open>MaxMinNorm\<close> puts in place of a tensor\<close>

lemma rect_Cons [simp]: "rect m (r # rs) \<longleftrightarrow> length r = m \<and> rect m rs"
  by (simp add: rect_def)

lemma rect_nth: "rect m t \<Longrightarrow> i < length t \<Longrightarrow> length (t ! i) = m"
  by (simp add: rect_def list_all_length)

lemma fle_refl: "a \<noteq> NaN \<Longrightarrow> fle a a"
  by (cases a) (simp_all add: fle_def)

lemma fle_total: "a \<noteq> NaN \<Longrightarrow> b \<noteq> NaN \<Longrightarrow> fle a b \<or> fle b a"
  by (cases a; cases b) (auto simp: fle_def)

lemma fle_trans: "fle a b \<Longrightarrow> fle b c \<Longrightarrow> fle a c"
  by (cases a; cases b; cases c) (auto simp: fle_def)

lemma fle_not_NaN: "fle a b \<Longrightarrow> a \<noteq> NaN \<and> b \<noteq> NaN"
  by (auto simp: fle_def)

lemma is_maximum_step:
  assumes "is_maximum ys running"
  shows "is_maximum (ys @ [v]) (max_step running v)"
proof (cases "running = NaN")
  case True
  with assms show ?thesis by (auto simp: is_maximum_def max_step_def)
next
  case False
  with assms have nn: "NaN \<notin> set ys" and le: "\<forall>x \<in> set ys. fle x running" and mem: "running \<in> set ys"
    by (auto simp: is_maximum_def split: if_splits)
  show ?thesis
  proof (cases "fle v running")
    case True
    then have "v \<noteq> NaN" by (simp add: fle_not_NaN)
    with True False nn le mem show ?thesis by (auto simp: is_maximum_def max_step_def)
  next
    case nle: False
    show ?thesis
    proof (cases "v = NaN")
      case True
      with False nle show ?thesis by (auto simp: is_maximum_def max_step_def)
    next
      case vn: False
      from fle_total[OF vn False] nle have rv: "fle running v" by simp
      have "\<forall>x \<in> set ys. fle x v" using le rv by (blast intro: fle_trans)
      with False nle vn nn fle_refl[OF vn] show ?thesis
        by (auto simp: is_maximum_def max_step_def)
    qed
  qed
qed

lemma is_minimum_step:
  assumes "is_minimum ys running"
  shows "is_minimum (ys @ [v]) (min_step running v)"
proof (cases "running = NaN")
  case True
  with assms show ?thesis by (auto simp: is_minimum_def min_step_def)
next
  case False
  with assms have nn: "NaN \<notin> set ys" and le: "\<forall>x \<in> set ys. fle running x" and mem: "running \<in> set ys"
    by (auto simp: is_minimum_def split: if_splits)
  show ?thesis
  proof (cases "fle running v")
    case True
    then have "v \<noteq> NaN" by (simp add: fle_not_NaN)
    with True False nn le mem show ?thesis by (auto simp: is_minimum_def min_step_def)
  next
    case nle: False
    show ?thesis
    proof (cases "v = NaN")
      case True
      with False nle show ?thesis by (auto simp: is_minimum_def min_step_def)
    next
      case vn: False
      from fle_total[OF vn False] nle have rv: "fle v running" by simp
      have "\<forall>x \<in> set ys. fle v x" using le rv by (blast intro: fle_trans)
      with False nle vn nn fle_refl[OF vn] show ?thesis
        by (auto simp: is_minimum_def min_step_def)
    qed
  qed
qed

lemma fold_max_step:
  "is_maximum ys running \<Longrightarrow> is_maximum (ys @ xs) (fold (\<lambda>v running. max_step running v) xs running)"
proof (induction xs arbitrary: ys running)
  case Nil
  then show ?case by simp
next
  case (Cons v xs)
  from Cons.IH[OF is_maximum_step[OF Cons.prems, of v]] show ?case by simp
qed

lemma fold_min_step:
  "is_minimum ys running \<Longrightarrow> is_minimum (ys @ xs) (fold (\<lambda>v running. min_step running v) xs running)"
proof (induction xs arbitrary: ys running)
  case Nil
  then show ?case by simp
next
  case (Cons v xs)
  from Cons.IH[OF is_minimum_step[OF Cons.prems, of v]] show ?case by simp
qed

lemma fl_maximum_is_maximum: "xs \<noteq> [] \<Longrightarrow> is_maximum xs (fl_maximum xs)"
proof (cases xs)
  case Nil
  then show "xs \<noteq> [] \<Longrightarrow> ?thesis" by simp
next
  case (Cons x rest)
  have "is_maximum [x] x" by (cases "x = NaN") (simp_all add: is_maximum_def fle_refl)
  from fold_max_step[OF this, of rest] show ?thesis by (simp add: fl_maximum_def Cons)
qed

lemma fl_minimum_is_minimum: "xs \<noteq> [] \<Longrightarrow> is_minimum xs (fl_minimum xs)"
proof (cases xs)
  case Nil
  then show "xs \<noteq> [] \<Longrightarrow> ?thesis" by simp
next
  case (Cons x rest)
  have "is_minimum [x] x" by (cases "x = NaN") (simp_all add: is_minimum_def fle_refl)
  from fold_min_step[OF this, of rest] show ?thesis by (simp add: fl_minimum_def Cons)
qed

lemma col_max_is_maximum: "fea \<noteq> [] \<Longrightarrow> is_maximum (column fea j) (col_max fea j)"
  unfolding col_max_def by (rule fl_maximum_is_maximum) (simp add: column_def)

lemma col_min_is_minimum: "fea \<noteq> [] \<Longrightarrow> is_minimum (column fea j) (col_min fea j)"
  unfolding col_min_def by (rule fl_minimum_is_minimum) (simp add: column_def)

lemma fold_map2_length:
  "rect m rs \<Longrightarrow> length running = m \<Longrightarrow> length (fold (\<lambda>row running. map2 f running row) rs running) = m"
  by (induction rs arbitrary: running) auto

lemma fold_map2_nth:
  "rect m rs \<Longrightarrow> length running = m \<Longrightarrow> j < m \<Longrightarrow>
     fold (\<lambda>row running. map2 f running row) rs running ! j
       = fold (\<lambda>x a. f a x) (column rs j) (running ! j)"
  by (induction rs arbitrary: running) (auto simp: column_def)

lemma reduce_dim0_columns:
  assumes "rect m t" "t \<noteq> []"
  shows "reduce_dim0 f t
     = Inr (Vector (map (\<lambda>j. fold (\<lambda>x a. f a x) (tl (column t j)) (hd (column t j))) [0..<m]))"
proof -
  from assms obtain r rs where t: "t = r # rs" and r: "length r = m" and rs: "rect m rs"
    by (cases t) auto
  have "fold (\<lambda>row running. map2 f running row) rs r
      = map (\<lambda>j. fold (\<lambda>x a. f a x) (tl (column t j)) (hd (column t j))) [0..<m]"
  proof (rule nth_equalityI)
    show "length (fold (\<lambda>row running. map2 f running row) rs r)
        = length (map (\<lambda>j. fold (\<lambda>x a. f a x) (tl (column t j)) (hd (column t j))) [0..<m])"
      using fold_map2_length[OF rs r] by simp
  next
    fix j assume "j < length (fold (\<lambda>row running. map2 f running row) rs r)"
    then have j: "j < m" using fold_map2_length[OF rs r, of f] by simp
    show "fold (\<lambda>row running. map2 f running row) rs r ! j
        = map (\<lambda>j. fold (\<lambda>x a. f a x) (tl (column t j)) (hd (column t j))) [0..<m] ! j"
      using j by (simp add: fold_map2_nth[OF rs r j] t column_def)
  qed
  then show ?thesis by (simp add: reduce_dim0_def t)
qed

lemma reduce_dim0_max:
  assumes "rect m t" "t \<noteq> []"
  shows "reduce_dim0 max_step t = Inr (Vector (map (col_max t) [0..<m]))"
proof -
  have "fold (\<lambda>x a. max_step a x) (tl (column t j)) (hd (column t j)) = col_max t j" for j
    using assms(2) by (cases t) (simp_all add: col_max_def fl_maximum_def column_def)
  then show ?thesis by (simp add: reduce_dim0_columns[OF assms])
qed

lemma reduce_dim0_min:
  assumes "rect m t" "t \<noteq> []"
  shows "reduce_dim0 min_step t = Inr (Vector (map (col_min t) [0..<m]))"
proof -
  have "fold (\<lambda>x a. min_step a x) (tl (column t j)) (hd (column t j)) = col_min t j" for j
    using assms(2) by (cases t) (simp_all add: col_min_def fl_minimum_def column_def)
  then show ?thesis by (simp add: reduce_dim0_columns[OF assms])
qed

lemma reduce_all_max: "v \<noteq> [] \<Longrightarrow> reduce_all max_step (Vector v) = Inr (Scalar (fl_maximum v))"
  by (cases v) (simp_all add: fl_maximum_def)

lemma reduce_all_min: "v \<noteq> [] \<Longrightarrow> reduce_all min_step (Vector v) = Inr (Scalar (fl_minimum v))"
  by (cases v) (simp_all add: fl_minimum_def)

lemma calculate_max_min_columns:
  assumes "rect m fea" "fea \<noteq> []"
  shows "calculate_max_min fea
     = Inr (Vector (map (col_max fea) [0..<m]), Vector (map (col_min fea) [0..<m]))"
  by (simp add: calculate_max_min_def reduce_dim0_max[OF assms] reduce_dim0_min[OF assms])

lemma calculate_max_min_empty: "calculate_max_min [] = Inl IndexError"
  by (simp add: calculate_max_min_def reduce_dim0_def)

text \<open>Broadcasting against statistics of one number, or of one number for each column.\<close>

lemma sequence_err_Inr: "sequence_err (map (\<lambda>r. Inr (g r)) t) = Inr (map g t)"
  by (induction t) auto

lemma bc_tensor_fits:
  assumes "rect m t" "stat_fits m s"
  shows "bc_tensor f t s = Inr (map (\<lambda>r. map (\<lambda>j. f (r ! j) (stat_at s j)) [0..<m]) t)"
proof (cases s)
  case (Scalar b)
  have "map (\<lambda>x. f x b) r = map (\<lambda>j. f (r ! j) b) [0..<m]" if "r \<in> set t" for r
  proof -
    from that assms(1) have "length r = m" by (auto simp: rect_def list_all_iff)
    then show ?thesis by (auto intro!: nth_equalityI)
  qed
  then show ?thesis by (simp add: Scalar)
next
  case (Vector v)
  with assms(2) have lv: "length v = m" by simp
  have "bc_vec f r v = Inr (map (\<lambda>j. f (r ! j) (v ! j)) [0..<m])" if "r \<in> set t" for r
  proof -
    from that assms(1) have "length r = m" by (auto simp: rect_def list_all_iff)
    with lv show ?thesis by (auto simp: bc_vec_def intro!: nth_equalityI)
  qed
  then have eq: "map (\<lambda>r. bc_vec f r v) t = map (\<lambda>r. Inr (map (\<lambda>j. f (r ! j) (v ! j)) [0..<m])) t"
    by simp
  show ?thesis
    by (simp only: Vector bc_tensor.simps stat_at.simps eq sequence_err_Inr)
qed

lemma bc_stat_fits:
  assumes "stat_fits m a" "stat_fits m b"
  shows "\<exists>c. bc_stat f a b = Inr c \<and> stat_fits m c \<and> (\<forall>j<m. stat_at c j = f (stat_at a j) (stat_at b j))"
  using assms by (cases a; cases b) (auto simp: bc_vec_def)

lemma normal_max_min_transform_fits:
  assumes rect: "rect m fea" and mx: "stat_fits m max_val" and mn: "stat_fits m min_val"
  shows "normal_max_min_transform F fea max_val min_val = Inr (scaled F m fea max_val min_val)"
proof -
  let ?num = "map (\<lambda>r. map (\<lambda>j. fsub F (r ! j) (stat_at min_val j)) [0..<m]) fea"
  have num: "bc_tensor (fsub F) fea min_val = Inr ?num"
    by (rule bc_tensor_fits[OF rect mn])
  from bc_stat_fits[OF mx mn, of "fsub F"] obtain den where
    den: "bc_stat (fsub F) max_val min_val = Inr den" "stat_fits m den"
    "\<forall>j<m. stat_at den j = fsub F (stat_at max_val j) (stat_at min_val j)"
    by blast
  have r2: "rect m ?num" by (simp add: rect_def list_all_iff)
  have "bc_tensor (fdiv F) ?num den
      = Inr (map (\<lambda>r. map (\<lambda>j. fdiv F (r ! j) (stat_at den j)) [0..<m]) ?num)"
    by (rule bc_tensor_fits[OF r2 den(2)])
  also have "map (\<lambda>r. map (\<lambda>j. fdiv F (r ! j) (stat_at den j)) [0..<m]) ?num
      = scaled F m fea max_val min_val"
    using den(3) by (simp add: scaled_def min_max_scaled_def)
  finally show ?thesis by (simp add: normal_max_min_transform_def num den(1))
qed

text \<open>The minimum and the maximum of the whole tensor.\<close>

lemma concat_columns:
  assumes "rect m fea"
  shows "x \<in> set (concat fea) \<longleftrightarrow> (\<exists>j<m. x \<in> set (column fea j))"
proof
  assume "x \<in> set (concat fea)"
  then obtain r where r: "r \<in> set fea" "x \<in> set r" by auto
  then obtain j where "j < length r" "x = r ! j" by (auto simp: in_set_conv_nth)
  moreover have "length r = m" using r(1) assms by (auto simp: rect_def list_all_iff)
  ultimately show "\<exists>j<m. x \<in> set (column fea j)" using r(1) by (auto simp: column_def)
next
  assume "\<exists>j<m. x \<in> set (column fea j)"
  then obtain j r where "j < m" "r \<in> set fea" "x = r ! j" by (auto simp: column_def)
  moreover then have "length r = m" using assms by (auto simp: rect_def list_all_iff)
  ultimately have "r \<in> set fea" "x \<in> set r" by simp_all
  then show "x \<in> set (concat fea)" by auto
qed

lemma all_max_is_maximum:
  assumes rect: "rect m fea" and ne: "fea \<noteq> []" and m: "0 < m"
  shows "is_maximum (concat fea) (all_max m fea)"
proof -
  let ?vs = "map (col_max fea) [0..<m]"
  have vs: "?vs \<noteq> []" using m by simp
  from fl_maximum_is_maximum[OF vs] have mx: "is_maximum ?vs (all_max m fea)"
    by (simp add: all_max_def)
  have cm: "is_maximum (column fea j) (col_max fea j)" for j
    by (rule col_max_is_maximum[OF ne])
  from mx obtain j where j: "j < m" "all_max m fea = col_max fea j"
    by (auto simp: is_maximum_def)
  have mem: "all_max m fea \<in> set (concat fea)"
    using cm[of j] j by (auto simp: concat_columns[OF rect] is_maximum_def simp del: set_concat)
  show ?thesis
  proof (cases "NaN \<in> set (concat fea)")
    case True
    then obtain k where k: "k < m" "NaN \<in> set (column fea k)"
      by (auto simp: concat_columns[OF rect] simp del: set_concat)
    with cm[of k] have "col_max fea k = NaN" by (simp add: is_maximum_def)
    with k(1) have "NaN \<in> set ?vs" by (auto simp: image_iff intro!: bexI[of _ k])
    with mx have "all_max m fea = NaN" by (simp add: is_maximum_def)
    with True mem show ?thesis by (simp add: is_maximum_def)
  next
    case False
    have nn: "NaN \<notin> set ?vs"
    proof
      assume "NaN \<in> set ?vs"
      then obtain k where k: "k < m" "col_max fea k = NaN" by auto
      with cm[of k] have "NaN \<in> set (column fea k)" by (auto simp: is_maximum_def)
      with k(1) False show False by (auto simp: concat_columns[OF rect] simp del: set_concat)
    qed
    with mx have le: "\<forall>u \<in> set ?vs. fle u (all_max m fea)" by (simp add: is_maximum_def)
    have "fle x (all_max m fea)" if "x \<in> set (concat fea)" for x
    proof -
      from that obtain k where k: "k < m" "x \<in> set (column fea k)"
        by (auto simp: concat_columns[OF rect] simp del: set_concat)
      with False have "NaN \<notin> set (column fea k)" by (auto simp: concat_columns[OF rect] simp del: set_concat)
      with cm[of k] k(2) have "fle x (col_max fea k)" by (auto simp: is_maximum_def)
      moreover have "fle (col_max fea k) (all_max m fea)" using le k(1) by simp
      ultimately show ?thesis by (rule fle_trans)
    qed
    with False mem show ?thesis by (simp add: is_maximum_def)
  qed
qed

lemma all_min_is_minimum:
  assumes rect: "rect m fea" and ne: "fea \<noteq> []" and m: "0 < m"
  shows "is_minimum (concat fea) (all_min m fea)"
proof -
  let ?vs = "map (col_min fea) [0..<m]"
  have vs: "?vs \<noteq> []" using m by simp
  from fl_minimum_is_minimum[OF vs] have mx: "is_minimum ?vs (all_min m fea)"
    by (simp add: all_min_def)
  have cm: "is_minimum (column fea j) (col_min fea j)" for j
    by (rule col_min_is_minimum[OF ne])
  from mx obtain j where j: "j < m" "all_min m fea = col_min fea j"
    by (auto simp: is_minimum_def)
  have mem: "all_min m fea \<in> set (concat fea)"
    using cm[of j] j by (auto simp: concat_columns[OF rect] is_minimum_def simp del: set_concat)
  show ?thesis
  proof (cases "NaN \<in> set (concat fea)")
    case True
    then obtain k where k: "k < m" "NaN \<in> set (column fea k)"
      by (auto simp: concat_columns[OF rect] simp del: set_concat)
    with cm[of k] have "col_min fea k = NaN" by (simp add: is_minimum_def)
    with k(1) have "NaN \<in> set ?vs" by (auto simp: image_iff intro!: bexI[of _ k])
    with mx have "all_min m fea = NaN" by (simp add: is_minimum_def)
    with True mem show ?thesis by (simp add: is_minimum_def)
  next
    case False
    have nn: "NaN \<notin> set ?vs"
    proof
      assume "NaN \<in> set ?vs"
      then obtain k where k: "k < m" "col_min fea k = NaN" by auto
      with cm[of k] have "NaN \<in> set (column fea k)" by (auto simp: is_minimum_def)
      with k(1) False show False by (auto simp: concat_columns[OF rect] simp del: set_concat)
    qed
    with mx have le: "\<forall>u \<in> set ?vs. fle (all_min m fea) u" by (simp add: is_minimum_def)
    have "fle (all_min m fea) x" if "x \<in> set (concat fea)" for x
    proof -
      from that obtain k where k: "k < m" "x \<in> set (column fea k)"
        by (auto simp: concat_columns[OF rect] simp del: set_concat)
      with False have "NaN \<notin> set (column fea k)" by (auto simp: concat_columns[OF rect] simp del: set_concat)
      with cm[of k] k(2) have "fle (col_min fea k) x" by (auto simp: is_minimum_def)
      moreover have "fle (all_min m fea) (col_min fea k)" using le k(1) by simp
      ultimately show ?thesis by (blast intro: fle_trans)
    qed
    with False mem show ?thesis by (simp add: is_minimum_def)
  qed
qed

text \<open>
  The range: between the minimum and the maximum of its list, an entry is scaled into
  \<open>[0, 1]\<close>, provided the difference of the two, as the dtype computes it, is finite and
  positive.
\<close>

lemma fsub_pos_finite:
  assumes "pos_finite (fsub F hi lo)"
  shows "hi \<noteq> NaN \<and> lo \<noteq> NaN \<and> \<not> is_inf hi \<and> \<not> is_inf lo \<and> fval hi - fval lo \<noteq> 0 \<and>
         fsub F hi lo = Fin (rnd F (fval hi - fval lo)) \<and> 0 < rnd F (fval hi - fval lo) \<and>
         rnd F (fval hi - fval lo) \<le> fmax F"
  using assms
  by (cases hi; cases lo) (auto simp: fsub_def fl_of_real_def Let_def is_inf_def split: if_splits)

lemma fle_finite:
  assumes "fle a b" "\<not> is_inf a" "\<not> is_inf b"
  shows "fval a \<le> fval b"
  using assms by (cases a; cases b) (auto simp: fle_def is_inf_def)

lemma fle_below_finite: "fle x hi \<Longrightarrow> \<not> is_inf hi \<Longrightarrow> x \<noteq> PInf"
  by (cases hi) (auto simp: fle_def is_inf_def)

lemma fle_above_finite: "fle lo x \<Longrightarrow> \<not> is_inf lo \<Longrightarrow> x \<noteq> NInf"
  by (cases lo) (auto simp: fle_def is_inf_def)

lemma fsub_between:
  assumes vf: "valid_format F"
    and fin: "x \<noteq> NaN" "lo \<noteq> NaN" "\<not> is_inf x" "\<not> is_inf lo"
    and le: "fval lo \<le> fval x" "fval x - fval lo \<le> w"
    and w: "rnd F w \<le> fmax F"
  shows "fsub F x lo = NZ \<or> (\<exists>y. fsub F x lo = Fin y \<and> 0 \<le> y \<and> y \<le> rnd F w)"
proof (cases "fval x - fval lo = 0")
  case True
  have "0 \<le> rnd F w"
  proof -
    from le True have "0 \<le> w" by simp
    moreover from vf have "mono (rnd F)" by (simp add: valid_format_def)
    ultimately have "rnd F 0 \<le> rnd F w" by (simp add: monoD)
    with vf show ?thesis by (simp add: valid_format_def)
  qed
  with True fin show ?thesis by (auto simp: fsub_def is_inf_def)
next
  case False
  with le have pos: "0 < fval x - fval lo" by simp
  let ?y = "rnd F (fval x - fval lo)"
  from vf pos have y0: "0 \<le> ?y"
    using monoD[of "rnd F" 0 "fval x - fval lo"] by (simp add: valid_format_def)
  from vf have "mono (rnd F)" by (simp add: valid_format_def)
  with le(2) have yw: "?y \<le> rnd F w" by (simp add: monoD)
  from vf have f1: "0 < fmax F" by (simp add: valid_format_def)
  have "fl_of_real F (fval x - fval lo) = Fin ?y"
    using y0 yw w f1 pos by (simp add: fl_of_real_def Let_def)
  moreover have "fsub F x lo = fl_of_real F (fval x - fval lo)"
    using False fin by (auto simp: fsub_def is_inf_def)
  ultimately show ?thesis using y0 yw by simp
qed

lemma fdiv_unit:
  assumes vf: "valid_format F" and d: "0 < dd"
    and n: "n = NZ \<or> (\<exists>y. n = Fin y \<and> 0 \<le> y \<and> y \<le> dd)"
  shows "unit_fl (fdiv F n (Fin dd))"
proof -
  from n consider "n = NZ" | "n = Fin 0" | y where "n = Fin y" "0 < y" "y \<le> dd"
    by (auto simp: less_le)
  then show ?thesis
  proof cases
    case 1
    with d show ?thesis by (simp add: fdiv_def is_inf_def zero_of_def)
  next
    case 2
    with d show ?thesis by (simp add: fdiv_def is_inf_def zero_of_def)
  next
    case 3
    let ?q = "rnd F (y / dd)"
    from 3 d have q: "0 \<le> y / dd" "y / dd \<le> 1" by simp_all
    from vf q(1) have q0: "0 \<le> ?q"
      using monoD[of "rnd F" 0 "y / dd"] by (simp add: valid_format_def)
    from vf q(2) have q1: "?q \<le> 1"
      using monoD[of "rnd F" "y / dd" 1] by (simp add: valid_format_def)
    from vf have f1: "1 \<le> fmax F" by (simp add: valid_format_def)
    from 3 d have pos: "0 < y / dd" by simp
    have "fl_of_real F (y / dd) = Fin ?q"
      using q0 q1 f1 pos by (simp add: fl_of_real_def Let_def)
    moreover have "fdiv F n (Fin dd) = fl_of_real F (y / dd)"
      using 3 d by (simp add: fdiv_def is_inf_def)
    ultimately show ?thesis using q0 q1 by simp
  qed
qed

lemma min_max_scaled_unit:
  assumes vf: "valid_format F" and mx: "is_maximum xs hi" and mn: "is_minimum xs lo"
    and x: "x \<in> set xs" and d: "pos_finite (fsub F hi lo)"
  shows "unit_fl (min_max_scaled F x hi lo)"
proof -
  let ?dd = "rnd F (fval hi - fval lo)"
  from fsub_pos_finite[OF d] have hl: "hi \<noteq> NaN" "lo \<noteq> NaN" "\<not> is_inf hi" "\<not> is_inf lo"
    and sub: "fsub F hi lo = Fin ?dd" and dd: "0 < ?dd" "?dd \<le> fmax F"
    by simp_all
  from mx hl(1) have nn: "NaN \<notin> set xs" and le_hi: "\<forall>y \<in> set xs. fle y hi"
    by (auto simp: is_maximum_def split: if_splits)
  from mn nn have le_lo: "\<forall>y \<in> set xs. fle lo y"
    by (auto simp: is_minimum_def)
  from x nn have xn: "x \<noteq> NaN" by auto
  from x le_hi le_lo have xh: "fle x hi" and xl: "fle lo x" by simp_all
  have xi: "\<not> is_inf x"
    using fle_below_finite[OF xh hl(3)] fle_above_finite[OF xl hl(4)] by (simp add: is_inf_def)
  have b: "fval lo \<le> fval x" "fval x \<le> fval hi"
    using fle_finite[OF xl hl(4) xi] fle_finite[OF xh xi hl(3)] by simp_all
  then have w: "fval x - fval lo \<le> fval hi - fval lo" by simp
  from fsub_between[OF vf xn hl(2) xi hl(4) b(1) w dd(2)]
  have n: "fsub F x lo = NZ \<or> (\<exists>y. fsub F x lo = Fin y \<and> 0 \<le> y \<and> y \<le> ?dd)" .
  show ?thesis
    unfolding min_max_scaled_def sub by (rule fdiv_unit[OF vf dd(1) n])
qed

lemma scaled_nth:
  "r < length fea \<Longrightarrow> j < m \<Longrightarrow>
     scaled F m fea max_val min_val ! r ! j
       = min_max_scaled F (fea ! r ! j) (stat_at max_val j) (stat_at min_val j)"
  by (simp add: scaled_def)

lemma scaled_shape:
  "length (scaled F m fea max_val min_val) = length fea" "rect m (scaled F m fea max_val min_val)"
  by (simp_all add: scaled_def rect_def list_all_iff)

lemma scaled_columns_unit:
  assumes vf: "valid_format F" and rect: "rect m fea" and ne: "fea \<noteq> []"
    and d: "\<forall>j<m. pos_finite (fsub F (col_max fea j) (col_min fea j))"
  shows "unit_entries m (scaled F m fea (Vector (map (col_max fea) [0..<m]))
           (Vector (map (col_min fea) [0..<m])))"
  unfolding unit_entries_def
proof (intro allI impI)
  fix r j
  assume "r < length (scaled F m fea (Vector (map (col_max fea) [0..<m]))
           (Vector (map (col_min fea) [0..<m])))" and j: "j < m"
  then have r: "r < length fea" by (simp add: scaled_shape)
  have x: "fea ! r ! j \<in> set (column fea j)" using r by (auto simp: column_def)
  from d j have "pos_finite (fsub F (col_max fea j) (col_min fea j))" by simp
  from min_max_scaled_unit[OF vf col_max_is_maximum[OF ne] col_min_is_minimum[OF ne] x this]
  show "unit_fl (scaled F m fea (Vector (map (col_max fea) [0..<m]))
           (Vector (map (col_min fea) [0..<m])) ! r ! j)"
    using r j by (simp add: scaled_nth)
qed

lemma scaled_coarse_unit:
  assumes vf: "valid_format F" and rect: "rect m fea" and ne: "fea \<noteq> []" and m: "0 < m"
    and d: "pos_finite (fsub F (all_max m fea) (all_min m fea))"
  shows "unit_entries m (scaled F m fea (Scalar (all_max m fea)) (Scalar (all_min m fea)))"
  unfolding unit_entries_def
proof (intro allI impI)
  fix r j
  assume "r < length (scaled F m fea (Scalar (all_max m fea)) (Scalar (all_min m fea)))"
    and j: "j < m"
  then have r: "r < length fea" by (simp add: scaled_shape)
  have "fea ! r ! j \<in> set (column fea j)" using r by (auto simp: column_def)
  with j have x: "fea ! r ! j \<in> set (concat fea)" by (auto simp: concat_columns[OF rect] simp del: set_concat)
  from min_max_scaled_unit[OF vf all_max_is_maximum[OF rect ne m] all_min_is_minimum[OF rect ne m] x d]
  show "unit_fl (scaled F m fea (Scalar (all_max m fea)) (Scalar (all_min m fea)) ! r ! j)"
    using r j by (simp add: scaled_nth)
qed

lemma update_items_nth:
  assumes "update_items f d = Inr d'" "i < length d" "d ! i = (name, fea)"
  shows "\<exists>out. d' ! i = (name, out) \<and> f name fea = Inr out"
proof -
  have a2: "list_all2 (\<lambda>(n, v) (n', v'). n' = n \<and> f n v = Inr v') d d'"
    by (rule update_items_all2[OF assms(1)])
  from list_all2_nthD[OF a2 assms(2)] assms(3) show ?thesis
    by (cases "d' ! i") auto
qed

lemma maxmin_bounds_global:
  assumes "global_scaling self" "maxmin_bounds self name fea = Inr (max_val, min_val)"
  shows "\<exists>st mx mn. feature_config self name = Some st \<and>
           st (max_val_name self) = Some mx \<and> st (min_val_name self) = Some mn \<and>
           (if coarse_dim self
            then reduce_all max_step mx = Inr max_val \<and> reduce_all min_step mn = Inr min_val
            else max_val = mx \<and> min_val = mn)"
  using assms
  by (auto simp: maxmin_bounds_def lookup_def split: option.splits sum.splits if_splits)

lemma maxmin_bounds_local:
  assumes gs: "\<not> global_scaling self" and b: "maxmin_bounds self name fea = Inr (max_val, min_val)"
    and rect: "rect m fea"
  shows "fea \<noteq> [] \<and>
         (if coarse_dim self
          then 0 < m \<and> max_val = Scalar (all_max m fea) \<and> min_val = Scalar (all_min m fea)
          else max_val = Vector (map (col_max fea) [0..<m]) \<and>
               min_val = Vector (map (col_min fea) [0..<m]))"
proof -
  have ne: "fea \<noteq> []"
    using gs b by (auto simp: maxmin_bounds_def calculate_max_min_empty)
  note cm = calculate_max_min_columns[OF rect ne]
  show ?thesis
  proof (cases "coarse_dim self")
    case False
    with gs b cm ne show ?thesis by (simp add: maxmin_bounds_def)
  next
    case True
    have m: "0 < m"
    proof (rule ccontr)
      assume "\<not> 0 < m"
      then have "m = 0" by simp
      with gs b cm True show False by (simp add: maxmin_bounds_def)
    qed
    then have nz: "map (col_max fea) [0..<m] \<noteq> []" "map (col_min fea) [0..<m] \<noteq> []" by simp_all
    from gs b cm True have "max_val = Scalar (all_max m fea) \<and> min_val = Scalar (all_min m fea)"
      by (auto simp: maxmin_bounds_def reduce_all_max[OF nz(1)] reduce_all_min[OF nz(2)]
          all_max_def all_min_def)
    with True m ne show ?thesis by simp
  qed
qed

text \<open>
  C8 (amended). Let \<^verbatim>\<open>MaxMinNorm.__call__\<close> return, and let \<open>fea\<close> be a tensor of either
  dictionary whose name has configured statistics. Then the entry is replaced by
  \<^verbatim>\<open>_normal_max_min_transform(fea, max_val, min_val)\<close>, which for statistics of one number,
  or of one number for each column, is \<open>(x - min_val) / (max_val - min_val)\<close> entry by
  entry in the arithmetic of the dtype. With \<^verbatim>\<open>global_scaling\<close>, \<open>max_val\<close> and \<open>min_val\<close>
  are the configured statistics, reduced to their maximum and minimum when \<^verbatim>\<open>coarse_dim\<close>
  is set. Without \<^verbatim>\<open>global_scaling\<close>, they are the maximum and the minimum of each
  column, or with \<^verbatim>\<open>coarse_dim\<close> the maximum and the minimum of the whole tensor; and
  every entry of the result lies in \<open>[0, 1]\<close> whenever the difference
  \<open>max_val - min_val\<close>, as the dtype computes it, is finite and positive (for each column,
  or with \<^verbatim>\<open>coarse_dim\<close> for the whole tensor).
\<close>

theorem maxmin_norm_result:
  assumes call: "MaxMinNorm_call F self (context, feature) = Inr (context', feature')"
    and d: "(d, d') = (context, context') \<or> (d, d') = (feature, feature')"
    and i: "i < length d" and di: "d ! i = (name, fea)"
    and name: "name \<in> dom (feature_config self)"
    and rect: "rect m fea"
  shows "\<exists>out max_val min_val.
      d' ! i = (name, out) \<and>
      maxmin_bounds self name fea = Inr (max_val, min_val) \<and>
      normal_max_min_transform F fea max_val min_val = Inr out \<and>
      (stat_fits m max_val \<and> stat_fits m min_val \<longrightarrow> out = scaled F m fea max_val min_val) \<and>
      (global_scaling self \<longrightarrow>
         (\<exists>st mx mn. feature_config self name = Some st \<and>
            st (max_val_name self) = Some mx \<and> st (min_val_name self) = Some mn \<and>
            (if coarse_dim self
             then reduce_all max_step mx = Inr max_val \<and> reduce_all min_step mn = Inr min_val
             else max_val = mx \<and> min_val = mn))) \<and>
      (\<not> global_scaling self \<longrightarrow>
         fea \<noteq> [] \<and>
         (\<forall>j<m. is_maximum (column fea j) (col_max fea j) \<and>
                 is_minimum (column fea j) (col_min fea j)) \<and>
         (if coarse_dim self
          then 0 < m \<and> max_val = Scalar (all_max m fea) \<and> min_val = Scalar (all_min m fea) \<and>
               is_maximum (concat fea) (all_max m fea) \<and> is_minimum (concat fea) (all_min m fea)
          else max_val = Vector (map (col_max fea) [0..<m]) \<and>
               min_val = Vector (map (col_min fea) [0..<m])) \<and>
         out = scaled F m fea max_val min_val \<and> length out = length fea \<and> rect m out \<and>
         (valid_format F \<and>
          (\<forall>j<m. pos_finite (fsub F (stat_at max_val j) (stat_at min_val j)))
            \<longrightarrow> unit_entries m out))"
proof -
  from call have "update_items (maxmin_item F self) context = Inr context'"
    "update_items (maxmin_item F self) feature = Inr feature'"
    by (auto simp: MaxMinNorm_call_def split: sum.splits)
  with d have "update_items (maxmin_item F self) d = Inr d'" by auto
  from update_items_nth[OF this i di] obtain out where
    out: "d' ! i = (name, out)" and item: "maxmin_item F self name fea = Inr out" by blast
  from item name obtain max_val min_val where
    b: "maxmin_bounds self name fea = Inr (max_val, min_val)"
    and t: "normal_max_min_transform F fea max_val min_val = Inr out"
    by (auto simp: maxmin_item_def split: sum.splits)
  have fits: "out = scaled F m fea max_val min_val"
    if "stat_fits m max_val" "stat_fits m min_val"
    using normal_max_min_transform_fits[where F = F, OF rect that] t by simp
  have glob: "\<exists>st mx mn. feature_config self name = Some st \<and>
            st (max_val_name self) = Some mx \<and> st (min_val_name self) = Some mn \<and>
            (if coarse_dim self
             then reduce_all max_step mx = Inr max_val \<and> reduce_all min_step mn = Inr min_val
             else max_val = mx \<and> min_val = mn)"
    if "global_scaling self"
    by (rule maxmin_bounds_global[OF that b])
  have loc: "fea \<noteq> [] \<and>
         (\<forall>j<m. is_maximum (column fea j) (col_max fea j) \<and>
                 is_minimum (column fea j) (col_min fea j)) \<and>
         (if coarse_dim self
          then 0 < m \<and> max_val = Scalar (all_max m fea) \<and> min_val = Scalar (all_min m fea) \<and>
               is_maximum (concat fea) (all_max m fea) \<and> is_minimum (concat fea) (all_min m fea)
          else max_val = Vector (map (col_max fea) [0..<m]) \<and>
               min_val = Vector (map (col_min fea) [0..<m])) \<and>
         out = scaled F m fea max_val min_val \<and> length out = length fea \<and> rect m out \<and>
         (valid_format F \<and>
          (\<forall>j<m. pos_finite (fsub F (stat_at max_val j) (stat_at min_val j)))
            \<longrightarrow> unit_entries m out)"
    if gs: "\<not> global_scaling self"
  proof -
    from maxmin_bounds_local[OF gs b rect] have ne: "fea \<noteq> []"
      and shape: "if coarse_dim self
          then 0 < m \<and> max_val = Scalar (all_max m fea) \<and> min_val = Scalar (all_min m fea)
          else max_val = Vector (map (col_max fea) [0..<m]) \<and>
               min_val = Vector (map (col_min fea) [0..<m])"
      by simp_all
    have cols: "\<forall>j<m. is_maximum (column fea j) (col_max fea j) \<and>
                 is_minimum (column fea j) (col_min fea j)"
      using col_max_is_maximum[OF ne] col_min_is_minimum[OF ne] by simp
    show ?thesis
    proof (cases "coarse_dim self")
      case True
      with shape have m: "0 < m" and mx: "max_val = Scalar (all_max m fea)"
        and mn: "min_val = Scalar (all_min m fea)" by simp_all
      have o: "out = scaled F m fea max_val min_val"
        by (rule fits) (simp_all add: mx mn)
      have u: "unit_entries m out"
        if "valid_format F" "\<forall>j<m. pos_finite (fsub F (stat_at max_val j) (stat_at min_val j))"
      proof -
        from that(2) m have "pos_finite (fsub F (all_max m fea) (all_min m fea))"
          by (auto simp: mx mn)
        from scaled_coarse_unit[OF that(1) rect ne m this] show ?thesis
          by (simp add: o mx mn)
      qed
      from True m mx mn o u ne cols all_max_is_maximum[OF rect ne m] all_min_is_minimum[OF rect ne m]
        scaled_shape[where F = F and m = m and fea = fea and max_val = max_val and min_val = min_val]
      show ?thesis by simp
    next
      case False
      with shape have mx: "max_val = Vector (map (col_max fea) [0..<m])"
        and mn: "min_val = Vector (map (col_min fea) [0..<m])" by simp_all
      have o: "out = scaled F m fea max_val min_val"
        by (rule fits) (simp_all add: mx mn)
      have u: "unit_entries m out"
        if "valid_format F" "\<forall>j<m. pos_finite (fsub F (stat_at max_val j) (stat_at min_val j))"
      proof -
        from that(2) have "\<forall>j<m. pos_finite (fsub F (col_max fea j) (col_min fea j))"
          by (simp add: mx mn)
        from scaled_columns_unit[OF that(1) rect ne this] show ?thesis
          by (simp add: o mx mn)
      qed
      from False mx mn o u ne cols scaled_shape[where F = F and m = m and fea = fea and max_val = max_val and min_val = min_val]
      show ?thesis by simp
    qed
  qed
  from out b t fits glob loc show ?thesis by blast
qed

lemma valid_exact32: "valid_format exact32"
  by (simp add: valid_format_def exact32_def mono_def)

lemma fea0_columns:
  "col_min fea0 0 = Fin 0" "col_max fea0 0 = Fin 1"
  "col_min fea0 (Suc 0) = Fin 8" "col_max fea0 (Suc 0) = Fin 16"
  by (simp_all add: col_min_def col_max_def fl_minimum_def fl_maximum_def column_def fea0_def
      max_step_def min_step_def fle_def)

lemma scaled_fea0:
  "scaled exact32 2 fea0 (Vector (map (col_max fea0) [0..<2])) (Vector (map (col_min fea0) [0..<2]))
     = [[Fin 0, Fin 0], [Fin 1, Fin 1]]"
proof -
  have u: "[0..<2] = [0, Suc 0]" by (simp add: upt_rec)
  show ?thesis
    unfolding scaled_def u
    by (simp add: fea0_columns min_max_scaled_def) (simp add: fea0_def exact32_simps)
qed

lemma fea0_max_min:
  "calculate_max_min fea0 = Inr (Vector [Fin 1, Fin 16], Vector [Fin 0, Fin 8])"
  by (simp add: fea0_def calculate_max_min_def reduce_dim0_def max_step_def min_step_def fle_def)

lemma fea0_by_column:
  "normal_max_min_transform exact32 fea0 (Vector [Fin 1, Fin 16]) (Vector [Fin 0, Fin 8])
     = Inr [[Fin 0, Fin 0], [Fin 1, Fin 1]]"
  by (simp add: fea0_def normal_max_min_transform_def bc_vec_def exact32_simps)

lemma local0_item: "maxmin_item exact32 local0 ''a'' fea0 = Inr [[Fin 0, Fin 0], [Fin 1, Fin 1]]"
proof -
  have "maxmin_bounds local0 ''a'' fea0 = Inr (Vector [Fin 1, Fin 16], Vector [Fin 0, Fin 8])"
    by (simp add: maxmin_bounds_def local0_def fea0_max_min)
  moreover have "''a'' \<in> dom (feature_config local0)" by (simp add: local0_def)
  ultimately show ?thesis by (simp add: maxmin_item_def fea0_by_column)
qed

lemma local0_run:
  "MaxMinNorm_call exact32 local0 ([(''a'', fea0)], [])
     = Inr ([(''a'', [[Fin 0, Fin 0], [Fin 1, Fin 1]])], [])"
  by (simp add: MaxMinNorm_call_def local0_item)

theorem maxmin_norm_result_witness:
  "MaxMinNorm_call exact32 local0 ([(''a'', fea0)], [])
     = Inr ([(''a'', [[Fin 0, Fin 0], [Fin 1, Fin 1]])], []) \<and>
   \<not> global_scaling local0 \<and> \<not> coarse_dim local0 \<and> ''a'' \<in> dom (feature_config local0) \<and>
   rect 2 fea0 \<and> valid_format exact32 \<and>
   pos_finite (fsub exact32 (col_max fea0 0) (col_min fea0 0)) \<and>
   pos_finite (fsub exact32 (col_max fea0 1) (col_min fea0 1)) \<and>
   scaled exact32 2 fea0 (Vector (map (col_max fea0) [0..<2])) (Vector (map (col_min fea0) [0..<2]))
     = [[Fin 0, Fin 0], [Fin 1, Fin 1]] \<and>
   unit_entries 2 [[Fin 0, Fin 0], [Fin 1, Fin 1]]"
proof -
  have gs: "\<not> global_scaling local0" "\<not> coarse_dim local0"
    and nm: "''a'' \<in> dom (feature_config local0)"
    by (simp_all add: local0_def)
  have rc: "rect 2 fea0" by (simp add: rect_def fea0_def)
  have pf: "pos_finite (fsub exact32 (col_max fea0 0) (col_min fea0 0))"
    "pos_finite (fsub exact32 (col_max fea0 1) (col_min fea0 1))"
    by (simp_all add: fea0_columns exact32_simps)
  have all: "\<forall>j<2. pos_finite (fsub exact32
      (stat_at (Vector (map (col_max fea0) [0..<2])) j)
      (stat_at (Vector (map (col_min fea0) [0..<2])) j))"
    using pf by (auto simp: less_2_cases_iff)
  have d0: "([(''a'', fea0)], [(''a'', [[Fin 0, Fin 0], [Fin 1, Fin 1]])])
        = ([(''a'', fea0)], [(''a'', [[Fin 0, Fin 0], [Fin 1, Fin 1]])]) \<or>
      ([(''a'', fea0)], [(''a'', [[Fin 0, Fin 0], [Fin 1, Fin 1]])]) = ([], [])"
    and i0: "0 < length [(''a'', fea0)]" and di0: "[(''a'', fea0)] ! 0 = (''a'', fea0)"
    by simp_all
  from maxmin_norm_result[where m = 2, OF local0_run d0 i0 di0 nm rc]
  obtain out max_val min_val where
    o: "[(''a'', [[Fin 0, Fin 0], [Fin 1, Fin 1]])] ! 0 = (''a'', out)"
    and l: "\<not> global_scaling local0 \<longrightarrow>
         fea0 \<noteq> [] \<and>
         (\<forall>j<2. is_maximum (column fea0 j) (col_max fea0 j) \<and>
                 is_minimum (column fea0 j) (col_min fea0 j)) \<and>
         (if coarse_dim local0
          then 0 < (2::nat) \<and> max_val = Scalar (all_max 2 fea0) \<and> min_val = Scalar (all_min 2 fea0) \<and>
               is_maximum (concat fea0) (all_max 2 fea0) \<and> is_minimum (concat fea0) (all_min 2 fea0)
          else max_val = Vector (map (col_max fea0) [0..<2]) \<and>
               min_val = Vector (map (col_min fea0) [0..<2])) \<and>
         out = scaled exact32 2 fea0 max_val min_val \<and> length out = length fea0 \<and> rect 2 out \<and>
         (valid_format exact32 \<and>
          (\<forall>j<2. pos_finite (fsub exact32 (stat_at max_val j) (stat_at min_val j)))
            \<longrightarrow> unit_entries 2 out)"
    by (elim exE conjE) (rule that, assumption+)
  from o have out: "out = [[Fin 0, Fin 0], [Fin 1, Fin 1]]" by simp
  from l gs have mm: "max_val = Vector (map (col_max fea0) [0..<2])"
    "min_val = Vector (map (col_min fea0) [0..<2])"
    by simp_all
  from mp[OF l gs(1)] have u: "valid_format exact32 \<and>
          (\<forall>j<2. pos_finite (fsub exact32 (stat_at max_val j) (stat_at min_val j)))
            \<longrightarrow> unit_entries 2 out"
    by (elim conjE) assumption
  from u all valid_exact32 have "unit_entries 2 [[Fin 0, Fin 0], [Fin 1, Fin 1]]"
    unfolding mm out by blast
  with local0_run gs nm rc valid_exact32 pf scaled_fea0 show ?thesis by blast
qed

text \<open>
  With \<^verbatim>\<open>coarse_dim\<close> set, \<^verbatim>\<open>min_val\<close> and \<^verbatim>\<open>max_val\<close> are the minimum and the maximum of
  the whole tensor, not of each column: the result is not the column-wise normalization.
  And a column whose maximum exceeds its minimum by more than the dtype can hold is not
  scaled into \<open>[0, 1]\<close>: for the column \<open>-2^127, 0, 2^127\<close> of \<^verbatim>\<open>float32\<close> numbers, both
  \<open>max_val - min_val\<close> and the last \<open>x - min_val\<close> are \<^verbatim>\<open>inf\<close>, and the result is
  \<open>0, 0, nan\<close>.
\<close>

theorem maxmin_norm_counterexample:
  "\<not> global_scaling coarse0 \<and> ''a'' \<in> dom (feature_config coarse0) \<and>
   maxmin_item exact32 coarse0 ''a'' fea0 = Inr [[Fin 0, Fin (1/2)], [Fin (1/16), Fin 1]] \<and>
   scaled exact32 2 fea0 (Vector (map (col_max fea0) [0..<2])) (Vector (map (col_min fea0) [0..<2]))
     = [[Fin 0, Fin 0], [Fin 1, Fin 1]] \<and>
   \<not> global_scaling local0 \<and> \<not> coarse_dim local0 \<and> ''a'' \<in> dom (feature_config local0) \<and>
   col_min fea1 0 = Fin (- (2 ^ 127)) \<and> col_max fea1 0 = Fin (2 ^ 127) \<and>
   maxmin_item exact32 local0 ''a'' fea1 = Inr [[Fin 0], [Fin 0], [NaN]] \<and>
   \<not> unit_entries 1 [[Fin 0], [Fin 0], [NaN]]"
proof -
  have "maxmin_bounds coarse0 ''a'' fea0 = Inr (Scalar (Fin 16), Scalar (Fin 0))"
    by (simp add: maxmin_bounds_def coarse0_def local0_def fea0_max_min max_step_def min_step_def
        fle_def)
  moreover have "normal_max_min_transform exact32 fea0 (Scalar (Fin 16)) (Scalar (Fin 0))
      = Inr [[Fin 0, Fin (1/2)], [Fin (1/16), Fin 1]]"
    by (simp add: fea0_def normal_max_min_transform_def exact32_simps)
  moreover have g: "\<not> global_scaling coarse0" "''a'' \<in> dom (feature_config coarse0)"
    "\<not> global_scaling local0" "\<not> coarse_dim local0" "''a'' \<in> dom (feature_config local0)"
    by (simp_all add: coarse0_def local0_def)
  ultimately have r: "maxmin_item exact32 coarse0 ''a'' fea0
      = Inr [[Fin 0, Fin (1/2)], [Fin (1/16), Fin 1]]"
    by (simp add: maxmin_item_def)
  have c: "col_min fea1 0 = Fin (- (2 ^ 127))" "col_max fea1 0 = Fin (2 ^ 127)"
    by (simp_all add: col_min_def col_max_def fl_minimum_def fl_maximum_def column_def fea1_def
        max_step_def min_step_def fle_def)
  have "calculate_max_min fea1 = Inr (Vector [Fin (2 ^ 127)], Vector [Fin (- (2 ^ 127))])"
    by (simp add: fea1_def calculate_max_min_def reduce_dim0_def max_step_def min_step_def fle_def)
  then have "maxmin_bounds local0 ''a'' fea1
      = Inr (Vector [Fin (2 ^ 127)], Vector [Fin (- (2 ^ 127))])"
    by (simp add: maxmin_bounds_def local0_def)
  moreover have "normal_max_min_transform exact32 fea1 (Vector [Fin (2 ^ 127)])
        (Vector [Fin (- (2 ^ 127))])
      = Inr [[Fin 0], [Fin 0], [NaN]]"
    by (simp add: fea1_def normal_max_min_transform_def bc_vec_def exact32_simps)
  ultimately have o: "maxmin_item exact32 local0 ''a'' fea1 = Inr [[Fin 0], [Fin 0], [NaN]]"
    using g by (simp add: maxmin_item_def)
  have "\<not> unit_fl ([[Fin 0], [Fin 0], [NaN]] ! 2 ! 0)" by simp
  then have n: "\<not> unit_entries 1 [[Fin 0], [Fin 0], [NaN]]"
    unfolding unit_entries_def by (intro notI) (auto dest!: spec[of _ 2])
  from r c o n g scaled_fea0 show ?thesis by blast
qed

section \<open>Theorems: \<^verbatim>\<open>train_step\<close>\<close>

lemma entry_plus_append: "entry_plus (entry_plus a vs) ws = entry_plus a (vs @ ws)"
  by (auto simp: entry_plus_def split: option.splits)

lemma entry_plus_Nil [simp]: "entry_plus a [] = a"
  by (simp add: entry_plus_def)

lemma fold_add_metric:
  "fold add_metric items M k = entry_plus (M k) (values_for k items)"
proof (induction items arbitrary: M)
  case Nil
  then show ?case by (simp add: values_for_def)
next
  case (Cons kv items)
  obtain k' v where kv: "kv = (k', v)" by (cases kv)
  show ?case
  proof (cases "k' = k")
    case True
    have "entry_plus (add_metric kv M k) (values_for k items) = entry_plus (entry_plus (M k) [v]) (values_for k items)"
      using True kv by (simp add: add_metric_def entry_plus_def split: option.splits)
    then show ?thesis
      using True kv by (simp add: Cons.IH entry_plus_append values_for_def)
  next
    case False
    have "add_metric kv M k = M k"
      using False kv by (simp add: add_metric_def)
    then show ?thesis
      using False kv by (simp add: Cons.IH values_for_def)
  qed
qed

lemma loss_key_not_fixed: "contains ''loss'' k \<or> contains ''error'' k \<Longrightarrow> k \<notin> fixed_keys"
  by (auto simp: fixed_keys_def startswith_def)

lemma train_loop_spec:
  assumes "train_loop run pes b M m ds = Inr (b', M', m')"
  shows "\<exists>p. b' = b + p \<and> p \<le> length ds \<and>
           (\<forall>n. pes = Some n \<and> int b \<le> n \<longrightarrow> int b' \<le> n) \<and>
           (\<forall>k. k \<notin> fixed_keys \<longrightarrow>
              M' k = entry_plus (M k) (concat (map (\<lambda>r. values_for k (loss_items (br_loss r)))
                                         (take p (batch_results run m ds)))))"
  using assms
proof (induction ds arbitrary: b M m)
  case Nil
  then show ?case by simp
next
  case (Cons data rest)
  show ?case
  proof (cases "Some (int b) = pes")
    case True
    with Cons.prems have "b' = b" "M' = M" by simp_all
    then show ?thesis using True by (intro exI[of _ 0]) auto
  next
    case False
    define r where "r = run m data"
    define M1 where "M1 = (fold add_metric (loss_items (br_loss r)) M)
        (''time_2_device'' \<mapsto> br_time_2_device r, ''time_2_fw'' \<mapsto> br_time_2_fw r,
         ''time_2_bw'' \<mapsto> br_time_2_bw r, ''time_per_step'' \<mapsto> br_time_per_step r,
         ''lr'' \<mapsto> br_lr r)"
    from Cons.prems False have rec: "train_loop run pes (b + 1) M1 (br_model r) rest = Inr (b', M', m')"
      by (simp add: Let_def r_def M1_def split: if_splits)
    from Cons.IH[OF rec] obtain p where
      p: "b' = b + 1 + p" "p \<le> length rest"
      "\<forall>n. pes = Some n \<and> int (b + 1) \<le> n \<longrightarrow> int b' \<le> n"
      "\<forall>k. k \<notin> fixed_keys \<longrightarrow>
          M' k = entry_plus (M1 k) (concat (map (\<lambda>r. values_for k (loss_items (br_loss r)))
                                        (take p (batch_results run (br_model r) rest))))"
      by blast
    have M1k: "M1 k = entry_plus (M k) (values_for k (loss_items (br_loss r)))" if "k \<notin> fixed_keys" for k
      using that by (simp add: M1_def fixed_keys_def fold_add_metric)
    have bound: "int b' \<le> n" if "pes = Some n" "int b \<le> n" for n
    proof -
      from that False have "int b < n" by auto
      then show ?thesis using p(3) that(1) by auto
    qed
    show ?thesis
    proof (intro exI[of _ "Suc p"] conjI allI impI)
      show "b' = b + Suc p" using p(1) by simp
      show "Suc p \<le> length (data # rest)" using p(2) by simp
      show "int b' \<le> n" if "pes = Some n \<and> int b \<le> n" for n
        using bound that by blast
      show "M' k = entry_plus (M k) (concat (map (\<lambda>r. values_for k (loss_items (br_loss r)))
                                 (take (Suc p) (batch_results run m (data # rest)))))"
        if "k \<notin> fixed_keys" for k
        using p(4) that M1k[OF that] by (simp add: Let_def r_def[symmetric] entry_plus_append)
    qed
  qed
qed

text \<open>
  C7 (amended). When \<^verbatim>\<open>train_step\<close> returns, it has processed no more batches than the
  loader holds, and no more than \<^verbatim>\<open>per_epoch_steps\<close> when that is set to a number that is
  not negative; and every entry of the returned dictionary whose name contains
  \<^verbatim>\<open>loss\<close> or \<^verbatim>\<open>error\<close> is the sum of the values the processed batches added under
  that name, divided by the number of processed batches.
\<close>

theorem train_step_metrics:
  assumes "train_step run per_epoch_steps model data_loader = Inr (metrics, batch, model')"
  shows "batch \<le> length data_loader \<and>
         (\<forall>n. per_epoch_steps = Some n \<and> 0 \<le> n \<longrightarrow> int batch \<le> n) \<and>
         (\<forall>p v. (contains ''loss'' p \<or> contains ''error'' p) \<and> metrics p = Some v \<longrightarrow>
            v = accumulated p (take batch (batch_results run model data_loader)) / real batch)"
proof -
  from assms obtain M where
    loop: "train_loop run per_epoch_steps 0 Map.empty model data_loader = Inr (batch, M, model')"
    and metrics: "metrics = (\<lambda>p. case M p of None \<Rightarrow> None
        | Some v \<Rightarrow> if contains ''loss'' p \<or> contains ''error'' p
                     then Some (v / real batch) else Some v)"
    by (auto simp: train_step_def split: sum.splits)
  from train_loop_spec[OF loop] have
    len: "batch \<le> length data_loader"
    and steps: "\<forall>n. per_epoch_steps = Some n \<and> 0 \<le> n \<longrightarrow> int batch \<le> n"
    and M: "\<forall>k. k \<notin> fixed_keys \<longrightarrow>
        M k = entry_plus None (concat (map (\<lambda>r. values_for k (loss_items (br_loss r)))
                                   (take batch (batch_results run model data_loader))))"
    by auto
  have "v = accumulated p (take batch (batch_results run model data_loader)) / real batch"
    if lp: "contains ''loss'' p \<or> contains ''error'' p" and v: "metrics p = Some v" for p v
  proof -
    from loss_key_not_fixed[OF lp] M
    have "M p = entry_plus None (concat (map (\<lambda>r. values_for p (loss_items (br_loss r)))
                                     (take batch (batch_results run model data_loader))))"
      by blast
    moreover from v lp obtain w where "M p = Some w" "v = w / real batch"
      by (auto simp: metrics split: option.splits)
    ultimately show ?thesis
      by (auto simp: entry_plus_def accumulated_def split: if_splits)
  qed
  with len steps show ?thesis by blast
qed

lemma run0_step:
  "train_step run0 (Some 2) 0 [1, 3, 5] =
     Inr ([''train_loss'' \<mapsto> 2, ''time_2_device'' \<mapsto> 0, ''time_2_fw'' \<mapsto> 0,
           ''time_2_bw'' \<mapsto> 0, ''time_per_step'' \<mapsto> 0, ''lr'' \<mapsto> 1], 2, 2)"
  by (auto simp: train_step_def run0_def add_metric_def Let_def startswith_def fun_eq_iff)

theorem train_step_metrics_witness:
  "train_step run0 (Some 2) 0 [1, 3, 5] =
     Inr ([''train_loss'' \<mapsto> 2, ''time_2_device'' \<mapsto> 0, ''time_2_fw'' \<mapsto> 0,
           ''time_2_bw'' \<mapsto> 0, ''time_per_step'' \<mapsto> 0, ''lr'' \<mapsto> 1], 2, 2) \<and>
   (2::nat) \<le> length [1, 3, 5 :: real] \<and> int 2 \<le> 2 \<and> contains ''loss'' ''train_loss'' \<and>
   accumulated ''train_loss'' (take 2 (batch_results run0 0 [1, 3, 5])) / real 2 = 2"
proof -
  have c: "contains ''loss'' ''train_loss''" by (simp add: startswith_def)
  from train_step_metrics[OF run0_step]
  have "\<forall>p v. (contains ''loss'' p \<or> contains ''error'' p) \<and>
      [''train_loss'' \<mapsto> 2 :: real, ''time_2_device'' \<mapsto> 0, ''time_2_fw'' \<mapsto> 0,
       ''time_2_bw'' \<mapsto> 0, ''time_per_step'' \<mapsto> 0, ''lr'' \<mapsto> 1] p = Some v \<longrightarrow>
      v = accumulated p (take 2 (batch_results run0 0 [1, 3, 5])) / real 2"
    by (elim conjE)
  moreover have "[''train_loss'' \<mapsto> 2 :: real, ''time_2_device'' \<mapsto> 0, ''time_2_fw'' \<mapsto> 0,
       ''time_2_bw'' \<mapsto> 0, ''time_per_step'' \<mapsto> 0, ''lr'' \<mapsto> 1] ''train_loss'' = Some 2"
    by simp
  ultimately have "2 = accumulated ''train_loss'' (take 2 (batch_results run0 0 [1, 3, 5])) / real 2"
    using c by blast
  then have "accumulated ''train_loss'' (take 2 (batch_results run0 0 [1, 3, 5])) / real 2 = 2"
    by (rule sym)
  moreover have "(2::nat) \<le> length [1, 3, 5 :: real]" "int 2 \<le> 2" by simp_all
  ultimately show ?thesis using run0_step c by blast
qed

text \<open>
  A negative \<^verbatim>\<open>per_epoch_steps\<close> passes the guard of \<^verbatim>\<open>train\<close>, and \<^verbatim>\<open>batch\<close> never
  equals it: the loop processes every batch of the loader, more than \<^verbatim>\<open>per_epoch_steps\<close>.
\<close>

theorem train_step_negative_steps_counterexample:
  "train_guard (Some (- 1)) True = None \<and>
   processed (train_step run0 (Some (- 1)) 0 [1, 3]) = Some 2 \<and> \<not> (int 2 \<le> - 1)"
  by (simp add: train_guard_def processed_def train_step_def run0_def Let_def)

section \<open>Theorems: file names and chunks\<close>

declare digits.simps [simp del]

lemma digit_cases: "d < 10 \<Longrightarrow> d \<in> {0, 1, 2, 3, 4, 5, 6, 7, 8, 9::nat}"
  by auto

lemma digit_val_digit_char: "d < 10 \<Longrightarrow> digit_val (digit_char d) = d"
  by (drule digit_cases) (auto simp: digit_val_def digit_char_def)

lemma digit_char_not_minus: "d < 10 \<Longrightarrow> digit_char d \<noteq> CHR ''-''"
  by (drule digit_cases) (auto simp: digit_char_def)

lemma dec_val_snoc: "dec_val (s @ [c]) = 10 * dec_val s + digit_val c"
  by (simp add: dec_val_def)

lemma dec_val_digits: "dec_val (digits n) = n"
proof (induction n rule: digits.induct)
  case (1 n)
  show ?case
  proof (cases "n < 10")
    case True
    then show ?thesis
      by (subst digits.simps) (simp add: dec_val_def digit_val_digit_char)
  next
    case False
    then have "dec_val (digits n) = 10 * dec_val (digits (n div 10)) + digit_val (digit_char (n mod 10))"
      by (subst digits.simps) (simp add: dec_val_snoc)
    also have "\<dots> = 10 * (n div 10) + n mod 10"
      using 1[OF False] by (simp add: digit_val_digit_char)
    finally show ?thesis by simp
  qed
qed

lemma digits_no_minus: "CHR ''-'' \<notin> set (digits n)"
proof (induction n rule: digits.induct)
  case (1 n)
  show ?case
  proof (cases "n < 10")
    case True
    then show ?thesis
      using digit_char_not_minus[of n] by (subst digits.simps) auto
  next
    case False
    have "n mod 10 < 10" by simp
    from digit_char_not_minus[OF this] 1[OF False] False show ?thesis
      by (subst digits.simps) auto
  qed
qed

lemma digits_not_Nil: "digits n \<noteq> []"
  by (subst digits.simps) simp

lemma digits_inj: "digits a = digits b \<Longrightarrow> a = b"
  by (metis dec_val_digits)

lemma digit_val_0: "digit_val (CHR ''0'') = 0"
  by (simp add: digit_val_def)

lemma dec_val_zeros: "dec_val (replicate k (CHR ''0'') @ s) = dec_val s"
proof -
  have "foldl (\<lambda>a c. 10 * a + digit_val c) 0 (replicate k (CHR ''0'')) = 0"
    by (induction k) (simp_all add: digit_val_0)
  then show ?thesis by (simp add: dec_val_def)
qed

lemma dec_val_zero_pad: "dec_val (zero_pad w (digits n)) = n"
  by (simp add: zero_pad_def dec_val_zeros dec_val_digits)

lemma zero_pad_no_minus: "CHR ''-'' \<notin> set (zero_pad w (digits n))"
  by (auto simp: zero_pad_def digits_no_minus)

lemma zero_pad_not_Nil: "zero_pad w (digits n) \<noteq> []"
  by (simp add: zero_pad_def digits_not_Nil)

lemma format_04d_inj: "format_04d a = format_04d b \<Longrightarrow> a = b"
proof -
  assume eq: "format_04d a = format_04d b"
  have neg_pos: False
    if "x < 0" "\<not> y < 0" "format_04d x = format_04d y" for x y
  proof -
    from that have "CHR ''-'' # zero_pad 3 (digits (nat (- x))) = zero_pad 4 (digits (nat y))"
      by (simp add: format_04d_def)
    then have "CHR ''-'' \<in> set (zero_pad 4 (digits (nat y)))"
      by (metis list.set_intros(1))
    then show False by (simp add: zero_pad_no_minus)
  qed
  show "a = b"
  proof (cases "a < 0"; cases "b < 0")
    assume ab: "a < 0" "b < 0"
    with eq have "zero_pad 3 (digits (nat (- a))) = zero_pad 3 (digits (nat (- b)))"
      by (simp add: format_04d_def)
    then have "nat (- a) = nat (- b)"
      by (metis dec_val_zero_pad)
    with ab show ?thesis by simp
  next
    assume ab: "\<not> a < 0" "\<not> b < 0"
    with eq have "zero_pad 4 (digits (nat a)) = zero_pad 4 (digits (nat b))"
      by (simp add: format_04d_def)
    then have "nat a = nat b"
      by (metis dec_val_zero_pad)
    with ab show ?thesis by simp
  next
    assume "a < 0" "\<not> b < 0"
    from neg_pos[OF this eq] show ?thesis ..
  next
    assume "\<not> a < 0" "b < 0"
    from neg_pos[OF this(2,1) eq[symmetric]] show ?thesis ..
  qed
qed

lemma read_file_name_inj: "inj read_file_name"
  by (rule injI) (auto simp: read_file_name_def dest: format_04d_inj)

lemma read_file_name_1: "read_file_name 0 = ''/ct_case_0001.csv''"
  by (simp add: read_file_name_def format_04d_def zero_pad_def digits.simps digit_char_def
      eval_nat_numeral)

text \<open>The pieces of \<^verbatim>\<open>np.array_split\<close>.\<close>

lemma length_pieces [simp]: "length (pieces ns xs) = length ns"
  by (induction ns arbitrary: xs) auto

lemma concat_pieces: "sum_list ns = length xs \<Longrightarrow> concat (pieces ns xs) = xs"
proof (induction ns arbitrary: xs)
  case Nil
  then show ?case by simp
next
  case (Cons n ns)
  then have "sum_list ns = length (drop n xs)" by simp
  from Cons.IH[OF this] show ?case by simp
qed

lemma map_length_pieces:
  "sum_list ns \<le> length xs \<Longrightarrow> map length (pieces ns xs) = ns"
proof (induction ns arbitrary: xs)
  case Nil
  then show ?case by simp
next
  case (Cons n ns)
  then have "sum_list ns \<le> length (drop n xs)" by simp
  from Cons.IH[OF this] Cons.prems show ?case by simp
qed

lemma sum_section_sizes: "0 < k \<Longrightarrow> sum_list (section_sizes n k) = n"
proof -
  assume k: "0 < k"
  have "n mod k \<le> k" using k by (simp add: less_imp_le)
  then have "sum_list (section_sizes n k) = (n mod k) * (n div k + 1) + (k - n mod k) * (n div k)"
    by (simp add: section_sizes_def Let_def sum_list_replicate)
  also have "\<dots> = n mod k + k * (n div k)"
    using \<open>n mod k \<le> k\<close> by (simp add: algebra_simps diff_mult_distrib)
  finally show ?thesis by simp
qed

lemma length_section_sizes: "0 < k \<Longrightarrow> length (section_sizes n k) = k"
  by (simp add: section_sizes_def Let_def less_imp_le)

lemma nth_section_sizes:
  "0 < k \<Longrightarrow> i < k \<Longrightarrow> section_sizes n k ! i = n div k + (if i < n mod k then 1 else 0)"
  by (auto simp: section_sizes_def Let_def nth_append)

section \<open>Theorems: the preparation run\<close>

lemma bindE_Inr:
  "bindE m f w = (Inr y, w') \<longleftrightarrow> (\<exists>x w1. m w = (Inr x, w1) \<and> f x w1 = (Inr y, w'))"
  by (auto simp: bindE_def split: prod.splits sum.splits)

lemma ret_Inr: "ret x w = (Inr y, w') \<longleftrightarrow> y = x \<and> w' = w"
  by (auto simp: ret_def)

lemma raise_Inr: "raise e w = (Inr y, w') \<longleftrightarrow> False"
  by (simp add: raise_def)

lemma lift_Inr: "lift r w = (Inr y, w') \<longleftrightarrow> r = Inr y \<and> w' = w"
  by (auto simp: lift_def)

lemma as_2d_Inr: "as_2d a = Inr rows \<longleftrightarrow> a = Arr2 rows"
  by (auto simp: as_2d_def split: nparr.splits)

lemma unpack_shape2_Inr: "unpack_shape2 a = Inr n \<longleftrightarrow> (\<exists>rows. a = Arr2 rows \<and> n = length rows)"
  by (auto simp: unpack_shape2_def split: nparr.splits)

lemma squeeze_Arr2:
  "squeeze rows = Arr2 r \<longleftrightarrow> r = rows \<and> 2 \<le> length rows \<and> length (hd rows) \<noteq> 1"
proof (cases rows)
  case Nil
  then show ?thesis by (simp add: squeeze_def)
next
  case (Cons x xs)
  then show ?thesis
    by (cases xs) (auto simp: squeeze_def split: list.splits)
qed

lemma squeeze_csv_2d: "csv_2d rows \<Longrightarrow> squeeze rows = Arr2 rows"
  by (simp add: squeeze_Arr2 csv_2d_def)

lemma loadtxt_Inr:
  "loadtxt f ev p w = (Inr a, w') \<Longrightarrow>
     \<exists>rows. f p = Some rows \<and> list_all (\<lambda>r. length r = length (hd rows)) rows \<and>
            a = squeeze rows \<and> w' = w\<lparr>reads := reads w @ [ev]\<rparr>"
  by (auto simp: loadtxt_def Let_def list_all_iff split: option.splits if_splits)

lemma loadtxt_reads:
  "loadtxt f ev p w = (Inr a, w') \<Longrightarrow> reads w' = reads w @ [ev] \<and> h5_files w' = h5_files w"
  by (auto dest!: loadtxt_Inr)

lemma loadtxt_rectangular:
  "f p = Some rows \<Longrightarrow> list_all (\<lambda>r. length r = length (hd rows)) rows \<Longrightarrow>
     loadtxt f ev p w = (Inr (squeeze rows), w\<lparr>reads := reads w @ [ev]\<rparr>)"
  by (auto simp: loadtxt_def list_all_iff Let_def)

lemmas prog_Inr = bindE_Inr ret_Inr raise_Inr lift_Inr

lemma take_rows_Inr:
  "take_rows a sel = Inr b \<longleftrightarrow> list_all (\<lambda>i. i < length a) sel \<and> b = map ((!) a) sel"
proof (cases "\<exists>i \<in> set sel. length a \<le> i")
  case True
  then obtain i where "i \<in> set sel" "\<not> i < length a" by auto
  then have "\<not> list_all (\<lambda>i. i < length a) sel" by (auto simp: list_all_iff)
  with True show ?thesis by (simp add: take_rows_def)
next
  case False
  then have "list_all (\<lambda>i. i < length a) sel" by (auto simp: list_all_iff not_le)
  with False show ?thesis by (auto simp: take_rows_def)
qed

lemma down_sampling_node_2d:
  "down_sampling_node E self (Arr2 a) (Arr2 b) w =
     (case requested_nodes E self of
        None \<Rightarrow> (Inl TypeError, w)
      | Some n \<Rightarrow>
          if int (length a) < n then (Inl DownSampleNodeError, w)
          else if n < 0 then (Inl ValueError, w)
          else (case random_choice E (rng w) (length a) (nat n) of
                  (sel, g') \<Rightarrow>
                    (case take_rows a sel of
                       Inl e \<Rightarrow> (Inl e, w\<lparr>rng := g'\<rparr>)
                     | Inr ri \<Rightarrow>
                         (case take_rows b sel of
                            Inl e \<Rightarrow> (Inl e, w\<lparr>rng := g'\<rparr>)
                          | Inr ro \<Rightarrow> (Inr (Arr2 ri, Arr2 ro), w\<lparr>rng := g'\<rparr>)))))"
  by (auto simp: down_sampling_node_def requested_nodes_def Let_def raise_def bindE_def lift_def
      ret_def unpack_shape2_def as_2d_def split: option.splits prod.splits sum.splits)

lemma take_rows_error: "take_rows a sel = Inl e \<Longrightarrow> e = IndexError"
  by (auto simp: take_rows_def split: if_splits)

lemma down_sampling_node_not_2d:
  "(\<forall>a. X \<noteq> Arr2 a) \<or> (\<forall>b. Y \<noteq> Arr2 b) \<Longrightarrow>
     down_sampling_node E self X Y w = (Inl ValueError, w)"
  by (auto simp: down_sampling_node_def bindE_def lift_def unpack_shape2_def split: nparr.splits)

lemma down_sampling_node_Inr:
  assumes "down_sampling_node E self X Y w = (Inr (X', Y'), w')"
  shows "reads w' = reads w \<and> h5_files w' = h5_files w \<and>
         (\<exists>a b sel. X = Arr2 a \<and> Y = Arr2 b \<and>
                list_all (\<lambda>i. i < length a \<and> i < length b) sel \<and>
                X' = Arr2 (map ((!) a) sel) \<and> Y' = Arr2 (map ((!) b) sel))"
proof -
  have "\<not> ((\<forall>a. X \<noteq> Arr2 a) \<or> (\<forall>b. Y \<noteq> Arr2 b))"
    using down_sampling_node_not_2d[of X Y E self w] assms by auto
  then obtain a b where X: "X = Arr2 a" and Y: "Y = Arr2 b" by auto
  show ?thesis
    using assms unfolding X Y
    by (auto simp: down_sampling_node_2d take_rows_Inr list_all_iff
        split: option.splits if_splits prod.splits sum.splits)
qed

lemma selection_of_trans:
  assumes "selection_of a b a1 b1"
    and "list_all (\<lambda>i. i < length a1 \<and> i < length b1) sel"
  shows "selection_of a b (map ((!) a1) sel) (map ((!) b1) sel)"
proof -
  from assms(1) obtain s1 where s1: "list_all (\<lambda>i. i < length a \<and> i < length b) s1"
    "a1 = map ((!) a) s1" "b1 = map ((!) b) s1"
    by (auto simp: selection_of_def)
  have "list_all (\<lambda>i. i < length a \<and> i < length b) (map ((!) s1) sel)"
    using s1 assms(2) by (auto simp: list_all_iff)
  moreover have "map ((!) a1) sel = map ((!) a) (map ((!) s1) sel)"
    "map ((!) b1) sel = map ((!) b) (map ((!) s1) sel)"
    using s1 assms(2) by (auto simp: list_all_iff)
  ultimately show ?thesis
    unfolding selection_of_def by blast
qed

lemma selection_of_first:
  "list_all (\<lambda>i. i < length a \<and> i < length b) sel \<Longrightarrow>
     selection_of a b (map ((!) a) sel) (map ((!) b) sel)"
  unfolding selection_of_def by blast

lemma sample_arrays_Inr:
  assumes "sample_arrays E self idx w = (Inr (n, X, Y), w')"
  shows "\<exists>inputs outputs.
           fs E (inputs_data_path self @ read_file_name idx) = Some inputs \<and>
           fs E (outputs_data_path self @ read_file_name idx) = Some outputs \<and>
           list_all (\<lambda>r. length r = length (hd inputs)) inputs \<and>
           list_all (\<lambda>r. length r = length (hd outputs)) outputs \<and>
           shape0 (squeeze inputs) = Inr n \<and>
           (if down_sampled E self
            then squeeze inputs = Arr2 inputs \<and> squeeze outputs = Arr2 outputs \<and>
                 (\<exists>ri ro. X = Arr2 ri \<and> Y = Arr2 ro \<and> selection_of inputs outputs ri ro)
            else X = squeeze inputs \<and> Y = squeeze outputs) \<and>
           reads w' = reads w @ case_reads idx \<and> h5_files w' = h5_files w"
proof -
  from assms obtain A w1 B w2 A1 B1 w3 where
    l1: "loadtxt (fs E) (CaseInput (read_file_name idx)) (inputs_data_path self @ read_file_name idx) w
          = (Inr A, w1)"
    and l2: "loadtxt (fs E) (CaseOutput (read_file_name idx)) (outputs_data_path self @ read_file_name idx) w1
          = (Inr B, w2)"
    and n: "shape0 A = Inr n"
    and d1: "(if data_type self = VALIDATION_NAME E \<or> truthy (val_down_sampling_node self)
              then down_sampling_node E self A B else ret (A, B)) w2
          = (Inr (A1, B1), w3)"
    and d2: "(if data_type self = TRAIN_NAME E \<and> truthy (train_down_sampling_node self)
              then down_sampling_node E self A1 B1 else ret (A1, B1)) w3
          = (Inr (X, Y), w')"
    unfolding sample_arrays_def by (auto simp: prog_Inr)
  from loadtxt_Inr[OF l1] obtain inputs where
    i: "fs E (inputs_data_path self @ read_file_name idx) = Some inputs"
    "list_all (\<lambda>r. length r = length (hd inputs)) inputs" "A = squeeze inputs"
    and w1: "w1 = w\<lparr>reads := reads w @ [CaseInput (read_file_name idx)]\<rparr>"
    by blast
  from loadtxt_Inr[OF l2] obtain outputs where
    o: "fs E (outputs_data_path self @ read_file_name idx) = Some outputs"
    "list_all (\<lambda>r. length r = length (hd outputs)) outputs" "B = squeeze outputs"
    and w2: "w2 = w1\<lparr>reads := reads w1 @ [CaseOutput (read_file_name idx)]\<rparr>"
    by blast
  let ?c1 = "data_type self = VALIDATION_NAME E \<or> truthy (val_down_sampling_node self)"
  let ?c2 = "data_type self = TRAIN_NAME E \<and> truthy (train_down_sampling_node self)"
  have s1: "reads w3 = reads w2 \<and> h5_files w3 = h5_files w2 \<and>
      (if ?c1 then squeeze inputs = Arr2 inputs \<and> squeeze outputs = Arr2 outputs \<and>
                   (\<exists>a1 b1. A1 = Arr2 a1 \<and> B1 = Arr2 b1 \<and> selection_of inputs outputs a1 b1)
       else A1 = A \<and> B1 = B)"
  proof (cases ?c1)
    case True
    with d1 have "down_sampling_node E self A B w2 = (Inr (A1, B1), w3)" by simp
    from down_sampling_node_Inr[OF this] obtain a b sel where
      e: "reads w3 = reads w2" "h5_files w3 = h5_files w2" "A = Arr2 a" "B = Arr2 b"
      "list_all (\<lambda>i. i < length a \<and> i < length b) sel"
      "A1 = Arr2 (map ((!) a) sel)" "B1 = Arr2 (map ((!) b) sel)"
      by blast
    from e(3,4) i(3) o(3) have ab: "a = inputs" "b = outputs"
      by (simp_all add: squeeze_Arr2 eq_commute[of "Arr2 _"])
    with e i(3) o(3) selection_of_first[OF e(5)] True show ?thesis by auto
  next
    case False
    with d1 show ?thesis by (auto simp: ret_Inr)
  qed
  have s2: "reads w' = reads w3 \<and> h5_files w' = h5_files w3 \<and>
      (if ?c2 then \<exists>a1 b1 sel. A1 = Arr2 a1 \<and> B1 = Arr2 b1 \<and>
                        list_all (\<lambda>i. i < length a1 \<and> i < length b1) sel \<and>
                        X = Arr2 (map ((!) a1) sel) \<and> Y = Arr2 (map ((!) b1) sel)
       else X = A1 \<and> Y = B1)"
  proof (cases ?c2)
    case True
    with d2 have "down_sampling_node E self A1 B1 w3 = (Inr (X, Y), w')" by simp
    from down_sampling_node_Inr[OF this] True show ?thesis by auto
  next
    case False
    with d2 show ?thesis by (auto simp: ret_Inr)
  qed
  have sel: "if down_sampled E self
      then squeeze inputs = Arr2 inputs \<and> squeeze outputs = Arr2 outputs \<and>
           (\<exists>ri ro. X = Arr2 ri \<and> Y = Arr2 ro \<and> selection_of inputs outputs ri ro)
      else X = squeeze inputs \<and> Y = squeeze outputs"
  proof (cases ?c1; cases ?c2)
    assume c: ?c1 ?c2
    from s1 c(1) obtain a1 b1 where
      q: "squeeze inputs = Arr2 inputs" "squeeze outputs = Arr2 outputs"
      "A1 = Arr2 a1" "B1 = Arr2 b1" "selection_of inputs outputs a1 b1"
      by auto
    from s2 c(2) q(3,4) obtain sel where
      "list_all (\<lambda>i. i < length a1 \<and> i < length b1) sel"
      "X = Arr2 (map ((!) a1) sel)" "Y = Arr2 (map ((!) b1) sel)"
      by auto
    with q selection_of_trans[OF q(5)] c show ?thesis
      by (auto simp: down_sampled_def)
  next
    assume c: ?c1 "\<not> ?c2"
    with s1 s2 show ?thesis by (auto simp: down_sampled_def)
  next
    assume c: "\<not> ?c1" ?c2
    from s1 c(1) have A1: "A1 = squeeze inputs" "B1 = squeeze outputs"
      using i(3) o(3) by auto
    from s2 c(2) obtain a1 b1 sel where
      q: "A1 = Arr2 a1" "B1 = Arr2 b1"
      "list_all (\<lambda>i. i < length a1 \<and> i < length b1) sel"
      "X = Arr2 (map ((!) a1) sel)" "Y = Arr2 (map ((!) b1) sel)"
      by auto
    from q(1,2) A1 have ab: "a1 = inputs" "b1 = outputs"
      by (simp_all add: squeeze_Arr2 eq_commute[of "Arr2 _"])
    with q A1 selection_of_first[OF q(3)] c show ?thesis
      by (auto simp: down_sampled_def)
  next
    assume c: "\<not> ?c1" "\<not> ?c2"
    with s1 s2 i(3) o(3) show ?thesis by (auto simp: down_sampled_def)
  qed
  from w1 w2 s1 s2 have "reads w' = reads w @ case_reads idx" "h5_files w' = h5_files w"
    by (simp_all add: case_reads_def)
  with i o n sel show ?thesis by blast
qed

lemma process_sample_Inr:
  assumes "process_sample E self dgf dsc idx w = (Inr s, w')"
  shows "written_sample E self idx s \<and> reads w' = reads w @ case_reads idx \<and>
         h5_files w' = h5_files w"
proof -
  from assms obtain n X Y where
    a: "sample_arrays E self idx w = (Inr (n, X, Y), w')"
    and d: "sample_dict E self dgf dsc idx (n, X, Y) = Inr s"
    unfolding process_sample_def by (auto simp: prog_Inr)
  from d obtain ri ro e0 where
    X: "X = Arr2 ri" and Y: "Y = Arr2 ro"
    and e0: "py_get (generate_distance_based_edges E self (cols 0 3 ri)) 0 = Inr e0"
    and s: "index s = astype_int32 idx" "points s = int n"
    "node_coord s = cols 0 3 ri" "laplace_coord s = cols 3 11 ri"
    "fiber_and_sheet s = cols 11 17 ri" "displacement s = cols 0 3 ro" "stress s = cols 3 4 ro"
    "edges_indices s = map (map astype_int32) e0"
    by (auto simp: sample_dict_def Let_def as_2d_Inr split: if_splits sum.splits)
  from sample_arrays_Inr[OF a] obtain inputs outputs where
    io: "fs E (inputs_data_path self @ read_file_name idx) = Some inputs"
    "fs E (outputs_data_path self @ read_file_name idx) = Some outputs"
    and rc: "list_all (\<lambda>r. length r = length (hd inputs)) inputs"
    "list_all (\<lambda>r. length r = length (hd outputs)) outputs"
    and n: "shape0 (squeeze inputs) = Inr n"
    and sel: "if down_sampled E self
      then squeeze inputs = Arr2 inputs \<and> squeeze outputs = Arr2 outputs \<and>
           (\<exists>ri ro. X = Arr2 ri \<and> Y = Arr2 ro \<and> selection_of inputs outputs ri ro)
      else X = squeeze inputs \<and> Y = squeeze outputs"
    and eff: "reads w' = reads w @ case_reads idx" "h5_files w' = h5_files w"
    by blast
  have sq: "squeeze inputs = Arr2 inputs \<and> squeeze outputs = Arr2 outputs \<and>
      (if down_sampled E self then selection_of inputs outputs ri ro
       else ri = inputs \<and> ro = outputs)"
  proof (cases "down_sampled E self")
    case True
    with sel X Y show ?thesis by auto
  next
    case False
    with sel X Y have "squeeze inputs = Arr2 ri" "squeeze outputs = Arr2 ro" by auto
    then have "ri = inputs" "ro = outputs" by (simp_all add: squeeze_Arr2)
    with False \<open>squeeze inputs = Arr2 ri\<close> \<open>squeeze outputs = Arr2 ro\<close> show ?thesis by simp
  qed
  then have csv: "csv_2d inputs" "csv_2d outputs"
    using rc by (simp_all add: squeeze_Arr2 csv_2d_def)
  from sq n have nl: "n = length inputs" by (simp add: shape0_def)
  have "written_sample E self idx s"
    unfolding written_sample_def
    using io csv sq e0 s a[unfolded X Y nl] nl by blast
  with eff show ?thesis by simp
qed

lemma inner_loop:
  "mapE (process_sample E self dgf dsc) indices w = (Inr ds, w') \<Longrightarrow>
     list_all2 (written_sample E self) indices ds \<and>
     reads w' = reads w @ concat (map case_reads indices) \<and> h5_files w' = h5_files w"
proof (induction indices arbitrary: w ds)
  case Nil
  then show ?case by (simp add: ret_Inr)
next
  case (Cons idx indices)
  from Cons.prems obtain s w1 rest where
    p: "process_sample E self dgf dsc idx w = (Inr s, w1)"
    and r: "mapE (process_sample E self dgf dsc) indices w1 = (Inr rest, w')"
    and ds: "ds = s # rest"
    by (auto simp: prog_Inr)
  from process_sample_Inr[OF p] Cons.IH[OF r] ds show ?case by simp
qed

lemma named_groups_fst: "map fst (named_groups ds) = group_names (length ds)"
  by (auto simp: named_groups_def group_names_def enumerate_eq_zip intro!: nth_equalityI)


lemma outer_loop:
  "mapE (\<lambda>(i, indices). bindE (mapE (process_sample E self dgf dsc) indices) (write_h5 i))
        (enumerate i0 chunks) w = (Inr us, w') \<Longrightarrow>
   \<exists>dss. list_all2 (list_all2 (written_sample E self)) chunks dss \<and>
         h5_files w' = h5_files w @ map (\<lambda>(i, ds). (i, named_groups ds)) (enumerate i0 dss) \<and>
         reads w' = reads w @ concat (map case_reads (concat chunks))"
proof (induction chunks arbitrary: i0 w us)
  case Nil
  then show ?case by (simp add: ret_Inr)
next
  case (Cons indices chunks)
  from Cons.prems obtain ds w1 w2 rest where
    i: "mapE (process_sample E self dgf dsc) indices w = (Inr ds, w1)"
    and wr: "write_h5 i0 ds w1 = (Inr (), w2)"
    and r: "mapE (\<lambda>(i, indices). bindE (mapE (process_sample E self dgf dsc) indices) (write_h5 i))
              (enumerate (Suc i0) chunks) w2 = (Inr rest, w')"
    by (auto simp: prog_Inr)
  from wr have w2: "h5_files w2 = h5_files w1 @ [(i0, named_groups ds)]" "reads w2 = reads w1"
    by (auto simp: write_h5_def named_groups_def)
  from Cons.IH[OF r] obtain dss where
    dss: "list_all2 (list_all2 (written_sample E self)) chunks dss"
    "h5_files w' = h5_files w2 @ map (\<lambda>(i, ds). (i, named_groups ds)) (enumerate (Suc i0) dss)"
    "reads w' = reads w2 @ concat (map case_reads (concat chunks))"
    by blast
  from inner_loop[OF i] w2 dss show ?case
    by (intro exI[of _ "ds # dss"]) simp
qed

lemma data_generation_Inr:
  assumes "data_generation E self w = (Inr u, w')"
  shows "\<exists>k dss.
           0 < chunk_file_size self \<and>
           int k = int (length (sample_indices self)) div chunk_file_size self \<and> 0 < k \<and>
           list_all2 (list_all2 (written_sample E self))
             (pieces (section_sizes (length (sample_indices self)) k) (sample_indices self)) dss \<and>
           h5_files w' = h5_files w @ map (\<lambda>(i, ds). (i, named_groups ds)) (enumerate 0 dss) \<and>
           reads w' = reads w @ [Table (global_feature_data_path self), Table (shape_data_path self)]
                        @ concat (map case_reads (sample_indices self))"
proof -
  let ?si = "sample_indices self"
  from assms obtain dgf w1 dsc w2 n chunks us where
    l1: "loadtxt (fs E) (Table (global_feature_data_path self)) (global_feature_data_path self) w
          = (Inr dgf, w1)"
    and l2: "loadtxt (fs E) (Table (shape_data_path self)) (shape_data_path self) w1 = (Inr dsc, w2)"
    and n: "floordiv (int (length ?si)) (chunk_file_size self) = Inr n"
    and sp: "array_split ?si n = Inr chunks"
    and lp: "mapE (\<lambda>(i, indices). bindE (mapE (process_sample E self dgf dsc) indices) (write_h5 i))
              (enumerate 0 chunks) w2 = (Inr us, w')"
    unfolding data_generation_def by (auto simp: prog_Inr)
  from n have c0: "chunk_file_size self \<noteq> 0" and nd: "n = int (length ?si) div chunk_file_size self"
    by (auto simp: floordiv_def split: if_splits)
  from sp have n0: "0 < n" and chunks: "chunks = pieces (section_sizes (length ?si) (nat n)) ?si"
    by (auto simp: array_split_def split: if_splits)
  have cpos: "0 < chunk_file_size self"
  proof (rule ccontr)
    assume "\<not> 0 < chunk_file_size self"
    with c0 have "chunk_file_size self < 0" by simp
    then have "int (length ?si) div chunk_file_size self \<le> 0"
      by (simp add: div_nonneg_neg_le0)
    with n0 nd show False by simp
  qed
  have k: "int (nat n) = int (length ?si) div chunk_file_size self" "0 < nat n"
    using n0 nd by simp_all
  have cc: "concat chunks = ?si"
    unfolding chunks using k(2) by (intro concat_pieces) (simp add: sum_section_sizes)
  from loadtxt_reads[OF l1] loadtxt_reads[OF l2]
  have w2: "reads w2 = reads w @ [Table (global_feature_data_path self), Table (shape_data_path self)]"
    "h5_files w2 = h5_files w"
    by simp_all
  from outer_loop[OF lp] obtain dss where
    "list_all2 (list_all2 (written_sample E self)) chunks dss"
    "h5_files w' = h5_files w2 @ map (\<lambda>(i, ds). (i, named_groups ds)) (enumerate 0 dss)"
    "reads w' = reads w2 @ concat (map case_reads (concat chunks))"
    by blast
  with w2 cc chunks cpos k show ?thesis
    by (intro exI[of _ "nat n"] exI[of _ dss]) simp
qed

section \<open>Theorems: validation data without \<^verbatim>\<open>val_down_sampling_node\<close>\<close>

lemma down_sampling_node_TypeError:
  "fst (down_sampling_node E self (Arr2 a) (Arr2 b) w) = Inl TypeError \<longleftrightarrow>
     requested_nodes E self = None"
  by (auto simp: down_sampling_node_2d split: option.splits prod.splits sum.splits
      dest: take_rows_error)

lemma down_sampling_node_error_branch:
  "fst (down_sampling_node E self (Arr2 a) (Arr2 b) w) = Inl DownSampleNodeError \<longleftrightarrow>
     (\<exists>n. requested_nodes E self = Some n \<and> int (length a) < n)"
  by (auto simp: down_sampling_node_2d split: option.splits prod.splits sum.splits
      dest: take_rows_error)

lemma loadtxt_csv_2d:
  "f p = Some rows \<Longrightarrow> csv_2d rows \<Longrightarrow>
     loadtxt f ev p w = (Inr (Arr2 rows), w\<lparr>reads := reads w @ [ev]\<rparr>)"
  using loadtxt_rectangular[of f p rows ev w] by (simp add: squeeze_csv_2d) (simp add: csv_2d_def)

lemma bindE_Inl: "m w = (Inl e, w') \<Longrightarrow> bindE m f w = (Inl e, w')"
  by (simp add: bindE_def)

lemma list_all2_never: "list_all2 (\<lambda>x y. False) xs ys \<Longrightarrow> xs = []"
  by (cases xs; cases ys) auto

lemma concat_never: "list_all2 (list_all2 (\<lambda>x y. False)) xss yss \<Longrightarrow> concat xss = []"
  by (induction rule: list_all2_induct) (auto dest: list_all2_never)

text \<open>
  C4. Let the data type be the validation type and \<^verbatim>\<open>val_down_sampling_node\<close> be absent.
  Then every sample whose files load with a first dimension is handed to
  \<^verbatim>\<open>_down_sampling_node\<close>, whose error is the error of the sample;
  \<^verbatim>\<open>_down_sampling_node\<close> never returns: on 2-D arrays its guard comparison
  \<^verbatim>\<open>None > num_nodes\<close> raises \<^verbatim>\<open>TypeError\<close>, and on an array that is not 2-D the
  unpacking of \<^verbatim>\<open>.shape\<close> before the guard raises \<^verbatim>\<open>ValueError\<close>; a sample whose two
  files are 2-D ends with the \<^verbatim>\<open>TypeError\<close>; and \<^verbatim>\<open>_data_generation\<close> fails.
  For any configuration and 2-D arrays, the guard stops \<^verbatim>\<open>_down_sampling_node\<close>
  exactly when the requested node count exceeds the number of rows (the
  \<^verbatim>\<open>raise ValueError\<close> of the error branch) or is no number (\<^verbatim>\<open>TypeError\<close>).
\<close>

theorem validation_needs_val_down_sampling_node:
  assumes v: "data_type self = VALIDATION_NAME E"
    and ne: "VALIDATION_NAME E \<noteq> TRAIN_NAME E"
    and none: "val_down_sampling_node self = None"
  shows "requested_nodes E self = None \<and>
         down_sampling_node E self (Arr2 a) (Arr2 b) w = (Inl TypeError, w) \<and>
         (fst (down_sampling_node E self X Y w) = Inl TypeError \<or>
          fst (down_sampling_node E self X Y w) = Inl ValueError) \<and>
         (fs E (inputs_data_path self @ read_file_name idx) = Some fa \<and>
          fs E (outputs_data_path self @ read_file_name idx) = Some fb \<and>
          list_all (\<lambda>r. length r = length (hd fa)) fa \<and>
          list_all (\<lambda>r. length r = length (hd fb)) fb \<and>
          shape0 (squeeze fa) = Inr n
            \<longrightarrow> (\<exists>e. down_sampling_node E self (squeeze fa) (squeeze fb)
                       (w\<lparr>reads := reads w @ case_reads idx\<rparr>) =
                     (Inl e, w\<lparr>reads := reads w @ case_reads idx\<rparr>) \<and>
                   sample_arrays E self idx w =
                     (Inl e, w\<lparr>reads := reads w @ case_reads idx\<rparr>))) \<and>
         (fs E (inputs_data_path self @ read_file_name idx) = Some a \<and>
          fs E (outputs_data_path self @ read_file_name idx) = Some b \<and> csv_2d a \<and> csv_2d b
            \<longrightarrow> fst (sample_arrays E self idx w) = Inl TypeError) \<and>
         (\<exists>e. fst (data_generation E self w) = Inl e) \<and>
         (fst (down_sampling_node E self2 (Arr2 ri) (Arr2 ro) w2) = Inl DownSampleNodeError \<longleftrightarrow>
            (\<exists>n. requested_nodes E self2 = Some n \<and> int (length ri) < n)) \<and>
         (fst (down_sampling_node E self2 (Arr2 ri) (Arr2 ro) w2) = Inl TypeError \<longleftrightarrow>
            requested_nodes E self2 = None) \<and>
         (fst (down_sampling_node E self2 (Arr2 ri) (Arr2 ro) w2) = Inl DownSampleNodeError \<or>
          fst (down_sampling_node E self2 (Arr2 ri) (Arr2 ro) w2) = Inl TypeError \<longleftrightarrow>
            (\<exists>n. requested_nodes E self2 = Some n \<and> int (length ri) < n) \<or>
            requested_nodes E self2 = None)"
proof -
  have rq: "requested_nodes E self = None"
    using v ne none by (simp add: requested_nodes_def)
  have ds2: "down_sampling_node E self (Arr2 x) (Arr2 y) w' = (Inl TypeError, w')" for x y w'
    by (simp add: down_sampling_node_2d rq)
  have ds: "down_sampling_node E self X' Y' w' = (Inl TypeError, w') \<or>
      down_sampling_node E self X' Y' w' = (Inl ValueError, w')" for X' Y' w'
  proof (cases "(\<exists>x. X' = Arr2 x) \<and> (\<exists>y. Y' = Arr2 y)")
    case True
    then show ?thesis using ds2 by auto
  next
    case False
    then have "(\<forall>a. X' \<noteq> Arr2 a) \<or> (\<forall>b. Y' \<noteq> Arr2 b)" by auto
    then have "down_sampling_node E self X' Y' w' = (Inl ValueError, w')"
      by (rule down_sampling_node_not_2d)
    then show ?thesis by simp
  qed
  have call: "\<exists>e. down_sampling_node E self (squeeze fa) (squeeze fb)
             (w\<lparr>reads := reads w @ case_reads idx\<rparr>) =
           (Inl e, w\<lparr>reads := reads w @ case_reads idx\<rparr>) \<and>
         sample_arrays E self idx w = (Inl e, w\<lparr>reads := reads w @ case_reads idx\<rparr>)"
    if f: "fs E (inputs_data_path self @ read_file_name idx) = Some fa"
      "fs E (outputs_data_path self @ read_file_name idx) = Some fb"
      "list_all (\<lambda>r. length r = length (hd fa)) fa"
      "list_all (\<lambda>r. length r = length (hd fb)) fb"
      "shape0 (squeeze fa) = Inr n"
    for fa fb n
  proof -
    let ?w2 = "w\<lparr>reads := reads w @ case_reads idx\<rparr>"
    from ds[of "squeeze fa" "squeeze fb" ?w2] obtain e where
      e: "down_sampling_node E self (squeeze fa) (squeeze fb) ?w2 = (Inl e, ?w2)" by blast
    have "sample_arrays E self idx w = (Inl e, ?w2)"
      using f v e
      by (simp add: sample_arrays_def bindE_def loadtxt_rectangular lift_def case_reads_def)
    with e show ?thesis by blast
  qed
  have arrays: "fst (sample_arrays E self idx w) = Inl TypeError"
    if f: "fs E (inputs_data_path self @ read_file_name idx) = Some a"
      "fs E (outputs_data_path self @ read_file_name idx) = Some b" "csv_2d a" "csv_2d b"
  proof -
    have "list_all (\<lambda>r. length r = length (hd a)) a" "list_all (\<lambda>r. length r = length (hd b)) b"
      "shape0 (squeeze a) = Inr (length a)"
      using f(3,4) by (simp_all add: csv_2d_def squeeze_csv_2d shape0_def)
    from call[OF f(1,2) this] show ?thesis
      using f(3,4) by (auto simp: squeeze_csv_2d ds2)
  qed
  have never: "sample_arrays E self i w1 \<noteq> (Inr r, w2)" for i w1 r w2
  proof
    assume "sample_arrays E self i w1 = (Inr r, w2)"
    then obtain x y w3 z w4 where "down_sampling_node E self x y w3 = (Inr z, w4)"
      unfolding sample_arrays_def using v by (auto simp: prog_Inr)
    with ds[of x y w3] show False by auto
  qed
  have nw: "\<not> written_sample E self i s" for i s
    using never by (auto simp: written_sample_def)
  have fails: "\<exists>e. fst (data_generation E self w) = Inl e"
  proof (cases "data_generation E self w")
    case (Pair r w')
    show ?thesis
    proof (cases r)
      case (Inl e)
      with Pair show ?thesis by simp
    next
      case (Inr u)
      with Pair have "data_generation E self w = (Inr u, w')" by simp
      from data_generation_Inr[OF this] obtain k dss where
        k: "int k = int (length (sample_indices self)) div chunk_file_size self" "0 < k"
        and c: "0 < chunk_file_size self"
        and a2: "list_all2 (list_all2 (written_sample E self))
             (pieces (section_sizes (length (sample_indices self)) k) (sample_indices self)) dss"
        by blast
      have "list_all2 (list_all2 (\<lambda>x y. False))
             (pieces (section_sizes (length (sample_indices self)) k) (sample_indices self)) dss"
        using a2 nw by (auto elim!: list_all2_mono)
      then have "concat (pieces (section_sizes (length (sample_indices self)) k) (sample_indices self)) = []"
        by (rule concat_never)
      moreover have "concat (pieces (section_sizes (length (sample_indices self)) k) (sample_indices self))
          = sample_indices self"
        using k(2) by (intro concat_pieces) (simp add: sum_section_sizes)
      ultimately have "length (sample_indices self) = 0" by simp
      with k have False by simp
      then show ?thesis ..
    qed
  qed
  have dsf: "fst (down_sampling_node E self X Y w) = Inl TypeError \<or>
      fst (down_sampling_node E self X Y w) = Inl ValueError"
    using ds[of X Y w] by auto
  have both: "fst (down_sampling_node E self2 (Arr2 ri) (Arr2 ro) w2) = Inl DownSampleNodeError \<or>
      fst (down_sampling_node E self2 (Arr2 ri) (Arr2 ro) w2) = Inl TypeError \<longleftrightarrow>
      (\<exists>n. requested_nodes E self2 = Some n \<and> int (length ri) < n) \<or>
      requested_nodes E self2 = None"
    by (simp only: down_sampling_node_error_branch down_sampling_node_TypeError)
  from rq ds2 dsf call arrays fails down_sampling_node_error_branch down_sampling_node_TypeError both
  show ?thesis by blast
qed

text \<open>A file of one column: \<^verbatim>\<open>np.loadtxt\<close> returns it 1-D, and the sample ends at the
  unpacking of \<^verbatim>\<open>.shape\<close>.\<close>

lemma one_column_file:
  "fst (sample_arrays (E0\<lparr>fs := \<lambda>path. Some [[1], [2], [3]]\<rparr>) prep_val 0 w0) = Inl ValueError"
  by (simp add: sample_arrays_def E0_def prep_val_def prep0_def w0_def bindE_def ret_def lift_def
      loadtxt_def squeeze_def shape0_def unpack_shape2_def down_sampling_node_def raise_def)

lemma prep_val_arrays: "fst (sample_arrays E0 prep_val 0 w0) = Inl TypeError"
  by (simp add: sample_arrays_def E0_def prep_val_def prep0_def w0_def bindE_def ret_def lift_def
      loadtxt_def table0_def squeeze_def shape0_def unpack_shape2_def down_sampling_node_def
      raise_def)

lemma prep_val_generation: "fst (data_generation E0 prep_val w0) = Inl TypeError"
  by (simp add: data_generation_def E0_def prep_val_def prep0_def w0_def bindE_def ret_def lift_def
      loadtxt_def table0_def floordiv_def array_split_def section_sizes_def Let_def
      process_sample_def sample_arrays_def squeeze_def shape0_def unpack_shape2_def
      down_sampling_node_def raise_def enumerate_eq_zip)

theorem validation_needs_val_down_sampling_node_witness:
  "data_type prep_val = VALIDATION_NAME E0 \<and> VALIDATION_NAME E0 \<noteq> TRAIN_NAME E0 \<and>
   val_down_sampling_node prep_val = None \<and> csv_2d table0 \<and>
   down_sampling_node E0 prep_val (Arr2 table0) (Arr2 table0) w0 = (Inl TypeError, w0) \<and>
   fst (sample_arrays E0 prep_val 0 w0) = Inl TypeError \<and>
   fst (data_generation E0 prep_val w0) = Inl TypeError"
proof -
  have h: "data_type prep_val = VALIDATION_NAME E0" "VALIDATION_NAME E0 \<noteq> TRAIN_NAME E0"
    "val_down_sampling_node prep_val = None"
    by (simp_all add: prep_val_def prep0_def E0_def)
  have c: "csv_2d table0" by (simp add: csv_2d_def table0_def)
  from validation_needs_val_down_sampling_node[OF h]
  have "down_sampling_node E0 prep_val (Arr2 table0) (Arr2 table0) w0 = (Inl TypeError, w0)"
    by blast
  with h c prep_val_arrays prep_val_generation show ?thesis by blast
qed

lemma run0_counts:
  "fst (data_generation E0 prep0 w0) = Inr () \<and>
   group_counts (snd (data_generation E0 prep0 w0)) = [3, 2]"
  by (simp add: data_generation_def E0_def prep0_def w0_def bindE_def ret_def lift_def
      loadtxt_def table0_def floordiv_def array_split_def section_sizes_def Let_def
      process_sample_def sample_arrays_def squeeze_def shape0_def as_2d_def truthy_def sample_dict_def
      generate_distance_based_edges_def py_get_def cols_def write_h5_def group_counts_def
      enumerate_eq_zip)

section \<open>Theorems: the files of \<^verbatim>\<open>_data_generation\<close>\<close>


lemma nth_enumerate_files:
  "i < length dss \<Longrightarrow>
     map (\<lambda>(i, ds). (i, named_groups ds)) (enumerate 0 dss) ! i = (i, named_groups (dss ! i))"
  by (simp add: nth_enumerate_eq)

lemma map_fst_enumerate_files:
  "map fst (map (\<lambda>(i, ds). (i, named_groups ds)) (enumerate 0 dss)) = [0..<length dss]"
  by (auto simp: enumerate_eq_zip intro!: nth_equalityI)


text \<open>
  C1 (amended). When \<^verbatim>\<open>_data_generation\<close> returns, \<^verbatim>\<open>chunk_file_size\<close> is positive and
  at most the number of samples, and the run has written the files \<open>0\<close> to \<open>k - 1\<close> for
  \<open>k = len(sample_indices) // chunk_file_size\<close>; file \<open>i\<close> holds exactly the groups
  \<^verbatim>\<open>idx_0\<close> to \<^verbatim>\<open>idx_{n - 1}\<close> where \<open>n\<close> is \<open>len // k\<close>, plus one for the first
  \<open>len % k\<close> files. That is at least \<^verbatim>\<open>chunk_file_size\<close>, and it is
  \<^verbatim>\<open>chunk_file_size\<close> in every file when \<^verbatim>\<open>chunk_file_size\<close> divides the number of
  samples.
\<close>

theorem chunked_files:
  assumes gen: "data_generation E self w = (Inr u, w')" and fresh: "h5_files w = []"
  shows "0 < chunk_file_size self \<and> chunk_file_size self \<le> int (length (sample_indices self)) \<and>
         map fst (h5_files w') = [0..<file_count self] \<and>
         (\<forall>i<file_count self.
            map fst (snd (h5_files w' ! i)) = group_names (file_size self i) \<and>
            nat (chunk_file_size self) \<le> file_size self i) \<and>
         (chunk_file_size self dvd int (length (sample_indices self)) \<longrightarrow>
            (\<forall>i<file_count self. file_size self i = nat (chunk_file_size self)))"
proof -
  let ?si = "sample_indices self" and ?c = "chunk_file_size self"
  let ?len = "length ?si"
  from data_generation_Inr[OF gen] fresh obtain k dss where
    c: "0 < ?c" and k: "int k = int ?len div ?c" "0 < k"
    and a2: "list_all2 (list_all2 (written_sample E self)) (pieces (section_sizes ?len k) ?si) dss"
    and files: "h5_files w' = map (\<lambda>(i, ds). (i, named_groups ds)) (enumerate 0 dss)"
    by auto
  have fc: "file_count self = k" using k by (simp add: file_count_def)
  define cn where "cn = nat ?c"
  have cn: "0 < cn" "?c = int cn" using c by (simp_all add: cn_def)
  have kdiv: "k = ?len div cn"
    using k(1) cn by (simp add: zdiv_int[symmetric] del: zdiv_int)
  have kc: "cn * k \<le> ?len" unfolding kdiv by simp
  have le: "cn \<le> ?len"
  proof -
    have "cn * 1 \<le> cn * k" using k(2) by (intro mult_le_mono2) simp
    then have "cn \<le> cn * k" by simp
    with kc show ?thesis by linarith
  qed
  have ldss: "length dss = k"
    using list_all2_lengthD[OF a2] k(2) by (simp add: length_section_sizes)
  have sizes: "length (dss ! i) = file_size self i" if "i < k" for i
  proof -
    have "length (dss ! i) = length (pieces (section_sizes ?len k) ?si ! i)"
      using list_all2_nthD[OF a2, of i] that k(2)
      by (simp add: length_section_sizes list_all2_lengthD)
    also have "\<dots> = map length (pieces (section_sizes ?len k) ?si) ! i"
      using that k(2) by (simp add: length_section_sizes)
    also have "\<dots> = section_sizes ?len k ! i"
      using k(2) by (subst map_length_pieces) (simp_all add: sum_section_sizes)
    finally show ?thesis
      using that k(2) by (simp add: nth_section_sizes file_size_def fc)
  qed
  have big: "cn \<le> file_size self i" for i
  proof -
    have "cn \<le> ?len div k"
      using kc k(2) by (simp add: less_eq_div_iff_mult_less_eq)
    then show ?thesis by (simp add: file_size_def fc)
  qed
  have names: "map fst (snd (h5_files w' ! i)) = group_names (file_size self i)" if "i < k" for i
  proof -
    have "h5_files w' ! i = (i, named_groups (dss ! i))"
      unfolding files using that ldss by (intro nth_enumerate_files) simp
    then show ?thesis using that by (simp add: named_groups_fst sizes)
  qed
  have exact: "file_size self i = cn" if "?c dvd int ?len" for i
  proof -
    from that cn have "cn dvd ?len" by (simp add: int_dvd_int_iff[symmetric] del: int_dvd_int_iff)
    then have "?len = cn * k" unfolding kdiv by simp
    then have "?len div k = cn" "?len mod k = 0" using k(2) by simp_all
    then show ?thesis by (simp add: file_size_def fc)
  qed
  have "map fst (h5_files w') = [0..<file_count self]"
    by (simp add: files map_fst_enumerate_files ldss fc del: map_map)
  moreover have "?c \<le> int ?len" using le cn(2) by simp
  moreover note c names[unfolded fc[symmetric]] big[unfolded cn_def]
    exact[unfolded cn_def]
  ultimately show ?thesis by blast
qed

lemma run1_ok: "fst (data_generation E0 prep1 w0) = Inr ()"
  by (simp add: data_generation_def E0_def prep1_def prep0_def w0_def bindE_def ret_def lift_def
      loadtxt_def table0_def floordiv_def array_split_def section_sizes_def Let_def
      process_sample_def sample_arrays_def squeeze_def shape0_def as_2d_def truthy_def sample_dict_def
      generate_distance_based_edges_def py_get_def cols_def write_h5_def enumerate_eq_zip
      numeral_2_eq_2 upt_rec)

lemma run1_eq: "data_generation E0 prep1 w0 = (Inr (), snd (data_generation E0 prep1 w0))"
  using run1_ok by (metis prod.collapse)

lemma file_count_prep1: "file_count prep1 = 2"
  by (simp add: file_count_def prep1_def prep0_def)

theorem chunked_files_witness:
  "data_generation E0 prep1 w0 = (Inr (), snd (data_generation E0 prep1 w0)) \<and>
   h5_files w0 = [] \<and> file_count prep1 = 2 \<and> chunk_file_size prep1 = 1 \<and>
   map fst (h5_files (snd (data_generation E0 prep1 w0))) = [0..<2] \<and>
   chunk_file_size prep1 \<le> int (length (sample_indices prep1))"
proof -
  have fresh: "h5_files w0 = []" by (simp add: w0_def)
  from chunked_files[OF run1_eq fresh]
  have "map fst (h5_files (snd (data_generation E0 prep1 w0))) = [0..<file_count prep1]"
    and "chunk_file_size prep1 \<le> int (length (sample_indices prep1))"
    by blast+
  with run1_eq fresh file_count_prep1 show ?thesis
    by (simp add: prep1_def prep0_def)
qed

text \<open>
  Five samples with \<^verbatim>\<open>chunk_file_size = 2\<close>: \<^verbatim>\<open>np.array_split\<close> into \<open>5 // 2 = 2\<close>
  sections gives files of three and of two samples, and the first holds a group
  \<^verbatim>\<open>idx_2\<close>.
\<close>

theorem chunked_files_counterexample:
  "length (sample_indices prep0) = 5 \<and> chunk_file_size prep0 = 2 \<and>
   fst (data_generation E0 prep0 w0) = Inr () \<and>
   group_counts (snd (data_generation E0 prep0 w0)) = [3, 2] \<and>
   group_names 3 = [''idx_0'', ''idx_1'', ''idx_2'']"
proof -
  have "group_names 3 = [''idx_0'', ''idx_1'', ''idx_2'']"
    by (simp add: group_names_def upt_rec digits.simps digit_char_def)
  with run0_counts show ?thesis by (simp add: prep0_def)
qed

section \<open>Theorems: the samples of \<^verbatim>\<open>_data_generation\<close>\<close>




section \<open>Theorems: the files of the statistics pass\<close>

lemma foldE_reads:
  assumes step: "\<And>x a w b w'. f x a w = (Inr b, w') \<Longrightarrow> reads w' = reads w @ [g x]"
  shows "foldE f xs a w = (Inr b, w') \<Longrightarrow> reads w' = reads w @ map g xs"
proof (induction xs arbitrary: a w)
  case Nil
  then show ?case by (simp add: ret_Inr)
next
  case (Cons x xs)
  from Cons.prems obtain a1 w1 where
    s: "f x a w = (Inr a1, w1)" and r: "foldE f xs a1 w1 = (Inr b, w')"
    by (auto simp: prog_Inr)
  from step[OF s] Cons.IH[OF r] show ?case by simp
qed

lemma data_node_stats_reads:
  assumes "data_node_stats E self w = (Inr r, w')"
  shows "reads w' = reads w @ map CaseInput (range_names (length (sample_indices self)))"
proof -
  have "reads w' = reads w @ map (\<lambda>idx. CaseInput (read_file_name idx))
      (map int [0..<length (sample_indices self)])"
    using assms unfolding data_node_stats_def
    by (rule foldE_reads[rotated]) (auto simp: prog_Inr dest!: loadtxt_Inr)
  then show ?thesis by (simp add: range_names_def comp_def)
qed

lemma data_label_stats_reads:
  assumes "data_label_stats E self w = (Inr r, w')"
  shows "reads w' = reads w @ map CaseOutput (range_names (length (sample_indices self)))"
proof -
  have "reads w' = reads w @ map (\<lambda>idx. CaseOutput (read_file_name idx))
      (map int [0..<length (sample_indices self)])"
    using assms unfolding data_label_stats_def
    by (rule foldE_reads[rotated]) (auto simp: prog_Inr dest!: loadtxt_Inr)
  then show ?thesis by (simp add: range_names_def comp_def)
qed

lemma input_names_append: "input_names (xs @ ys) = input_names xs @ input_names ys"
  by (induction xs rule: input_names.induct) auto

lemma output_names_append: "output_names (xs @ ys) = output_names xs @ output_names ys"
  by (induction xs rule: output_names.induct) auto

lemma input_names_CaseInput: "input_names (map CaseInput ns) = ns"
  by (induction ns) auto

lemma output_names_CaseOutput: "output_names (map CaseOutput ns) = ns"
  by (induction ns) auto

lemma names_case_reads:
  "input_names (concat (map case_reads idxs)) = map read_file_name idxs"
  "output_names (concat (map case_reads idxs)) = map read_file_name idxs"
  by (induction idxs) (auto simp: case_reads_def)

lemma same_names_set:
  "set (range_names n) = set (map read_file_name idxs) \<longleftrightarrow> set idxs = int ` {0..<n}"
proof -
  have "set (range_names n) = read_file_name ` int ` {0..<n}"
    by (auto simp: range_names_def)
  moreover have "set (map read_file_name idxs) = read_file_name ` set idxs" by simp
  ultimately show ?thesis
    using inj_image_eq_iff[OF read_file_name_inj, of "int ` {0..<n}" "set idxs"] by auto
qed

lemma same_names_list:
  "range_names n = map read_file_name idxs \<longleftrightarrow> idxs = map int [0..<n]"
proof -
  have "range_names n = map read_file_name (map int [0..<n])"
    by (simp add: range_names_def comp_def)
  then show ?thesis
    using inj_map_eq_map[OF read_file_name_inj, of "map int [0..<n]" idxs] by auto
qed

text \<open>
  C5. Let the two statistics loops and the generation pass each run to their end from a
  state with nothing read. The statistics loops have read, under the input and the output
  directory, the files \<^verbatim>\<open>ct_case_{i+1:04d}.csv\<close> for \<open>i\<close> from \<open>0\<close> to \<open>N - 1\<close>,
  \<open>N\<close> the length of \<^verbatim>\<open>sample_indices\<close>, nothing else and whatever the indices are.
  The generation pass has read the files of the indices. The two read the same set of
  files exactly when the indices are the numbers \<open>0\<close> to \<open>N - 1\<close> in some order, and
  the same files in the same order exactly when \<^verbatim>\<open>sample_indices\<close> is the list
  \<open>0, \<dots>, N - 1\<close>.
\<close>

theorem stats_pass_reads:
  assumes node: "data_node_stats E self w1 = (Inr r1, w1')"
    and label: "data_label_stats E self w2 = (Inr r2, w2')"
    and gen: "data_generation E self w3 = (Inr u, w3')"
    and fresh: "reads w1 = []" "reads w2 = []" "reads w3 = []"
  shows "reads w1' = map CaseInput (range_names (length (sample_indices self))) \<and>
         reads w2' = map CaseOutput (range_names (length (sample_indices self))) \<and>
         input_names (reads w3') = map read_file_name (sample_indices self) \<and>
         output_names (reads w3') = map read_file_name (sample_indices self) \<and>
         (set (input_names (reads w1')) = set (input_names (reads w3')) \<longleftrightarrow>
            set (sample_indices self) = int ` {0..<length (sample_indices self)}) \<and>
         (set (output_names (reads w2')) = set (output_names (reads w3')) \<longleftrightarrow>
            set (sample_indices self) = int ` {0..<length (sample_indices self)}) \<and>
         (input_names (reads w1') = input_names (reads w3') \<longleftrightarrow>
            sample_indices self = map int [0..<length (sample_indices self)]) \<and>
         (output_names (reads w2') = output_names (reads w3') \<longleftrightarrow>
            sample_indices self = map int [0..<length (sample_indices self)])"
proof -
  let ?N = "length (sample_indices self)"
  have r1: "reads w1' = map CaseInput (range_names ?N)"
    using data_node_stats_reads[OF node] fresh by simp
  have r2: "reads w2' = map CaseOutput (range_names ?N)"
    using data_label_stats_reads[OF label] fresh by simp
  from data_generation_Inr[OF gen] fresh
  have r3: "reads w3' = [Table (global_feature_data_path self), Table (shape_data_path self)]
      @ concat (map case_reads (sample_indices self))"
    by auto
  have i3: "input_names (reads w3') = map read_file_name (sample_indices self)"
    and o3: "output_names (reads w3') = map read_file_name (sample_indices self)"
    unfolding r3 by (simp_all add: names_case_reads)
  have i1: "input_names (reads w1') = range_names ?N"
    and o2: "output_names (reads w2') = range_names ?N"
    unfolding r1 r2 by (simp_all add: input_names_CaseInput output_names_CaseOutput)
  show ?thesis
    unfolding i1 o2 i3 o3 same_names_set same_names_list
    using r1 r2 by simp
qed

lemma digits_small: "n < 10 \<Longrightarrow> digits n = [digit_char n]"
  by (subst digits.simps) simp

lemma range_names_2: "range_names 2 = [''/ct_case_0001.csv'', ''/ct_case_0002.csv'']"
proof -
  have "[0..<2] = [0, Suc 0]" by (simp add: upt_rec)
  moreover have "format_04d 1 = ''0001''" "format_04d 2 = ''0002''"
    by (simp_all add: format_04d_def zero_pad_def digits_small digit_char_def eval_nat_numeral)
  ultimately show ?thesis
    by (simp add: range_names_def read_file_name_def)
qed

lemma node_stats_ok: "fst (data_node_stats E0 prep1 w0) = Inr (Some (cols 0 3 (table0 @ table0)),
    Some (cols 3 11 (table0 @ table0)), Some (cols 11 17 (table0 @ table0)))"
  by (simp add: data_node_stats_def E0_def prep1_def prep0_def w0_def bindE_def ret_def lift_def
      loadtxt_def table0_def squeeze_def as_2d_def concat0_def cols_def upt_rec numeral_2_eq_2)

lemma label_stats_ok: "fst (data_label_stats E0 prep1 w0) = Inr (Some (cols 0 3 (table0 @ table0)),
    Some (cols 3 4 (table0 @ table0)))"
  by (simp add: data_label_stats_def E0_def prep1_def prep0_def w0_def bindE_def ret_def lift_def
      loadtxt_def table0_def squeeze_def as_2d_def concat0_def cols_def upt_rec numeral_2_eq_2)

theorem stats_pass_reads_witness:
  "fst (data_node_stats E0 prep1 w0) = Inr (Some (cols 0 3 (table0 @ table0)),
      Some (cols 3 11 (table0 @ table0)), Some (cols 11 17 (table0 @ table0))) \<and>
   fst (data_label_stats E0 prep1 w0) = Inr (Some (cols 0 3 (table0 @ table0)),
      Some (cols 3 4 (table0 @ table0))) \<and>
   fst (data_generation E0 prep1 w0) = Inr () \<and> reads w0 = [] \<and>
   reads (snd (data_node_stats E0 prep1 w0))
     = [CaseInput ''/ct_case_0001.csv'', CaseInput ''/ct_case_0002.csv''] \<and>
   reads (snd (data_label_stats E0 prep1 w0))
     = [CaseOutput ''/ct_case_0001.csv'', CaseOutput ''/ct_case_0002.csv''] \<and>
   input_names (reads (snd (data_generation E0 prep1 w0)))
     = [''/ct_case_0001.csv'', ''/ct_case_0002.csv'']"
proof -
  have fresh: "reads w0 = []" by (simp add: w0_def)
  have n: "data_node_stats E0 prep1 w0 = (Inr (Some (cols 0 3 (table0 @ table0)),
      Some (cols 3 11 (table0 @ table0)), Some (cols 11 17 (table0 @ table0))),
      snd (data_node_stats E0 prep1 w0))"
    using node_stats_ok by (metis prod.collapse)
  have l: "data_label_stats E0 prep1 w0 = (Inr (Some (cols 0 3 (table0 @ table0)),
      Some (cols 3 4 (table0 @ table0))), snd (data_label_stats E0 prep1 w0))"
    using label_stats_ok by (metis prod.collapse)
  have len: "length (sample_indices prep1) = 2" "sample_indices prep1 = [0, 1]"
    by (simp_all add: prep1_def prep0_def)
  from stats_pass_reads[OF n l run1_eq fresh fresh fresh]
  have "reads (snd (data_node_stats E0 prep1 w0))
      = map CaseInput (range_names (length (sample_indices prep1)))"
    "reads (snd (data_label_stats E0 prep1 w0))
      = map CaseOutput (range_names (length (sample_indices prep1)))"
    "input_names (reads (snd (data_generation E0 prep1 w0)))
      = map read_file_name (sample_indices prep1)"
    by blast+
  then have "reads (snd (data_node_stats E0 prep1 w0)) = map CaseInput (range_names 2)"
    "reads (snd (data_label_stats E0 prep1 w0)) = map CaseOutput (range_names 2)"
    "input_names (reads (snd (data_generation E0 prep1 w0))) = map read_file_name [0, 1]"
    by (simp_all only: len(1)) (simp only: len(2))
  moreover have "map read_file_name [0, 1] = range_names 2"
    by (simp add: range_names_def upt_rec numeral_2_eq_2)
  ultimately show ?thesis
    using node_stats_ok label_stats_ok run1_ok fresh by (simp add: range_names_2)
qed

end
